(* ===== verification/Prelude.thy ===== *)
theory Prelude
  imports
    "HOL-Library.AList"
    "HOL-Library.Word"
    "HOL-Library.List_Lexorder"
    "HOL-Library.Char_ord"
begin

text \<open>
  What every component of the server shares.

  \<^item> \<open>proc\<close>: an \<open>async fn\<close> of the source. Between two \<open>.await\<close> points a handler runs without
    giving up the shared state, so a handler is a tree whose nodes (\<open>Act\<close>) are the atomic
    sections (one SQL statement, one locked block) and whose leaves (\<open>Ret\<close>) are the results.
    \<open>run\<close> executes a tree without interruption; \<open>sched\<close> interleaves a pool of them.
  \<^item> \<open>pbind\<close>: the \<open>?\<close> operator and sequencing, an error ends the tree.
  \<^item> \<open>keeps I p\<close>: a whole run of \<open>p\<close> keeps \<open>I\<close>;
  \<^item> \<open>safe I p\<close>: every atomic section of \<open>p\<close> keeps \<open>I\<close>; \<open>sched_safe\<close> lifts this to every
    interleaving of every pool.
  \<^item> a \<open>HashMap\<close> as an association list with distinct keys, and its contract as the locale
    \<open>keyed_store\<close>.
\<close>

named_theorems safe_rules
named_theorems run_simps
named_theorems keeps_rules

type_synonym bytes = "8 word list"

section \<open>Handlers as trees of atomic sections\<close>

datatype (dead 's, 'r) proc =
    Ret 'r
  | Act "'s \<Rightarrow> 's \<times> ('s, 'r) proc"

lemma proc_induct [case_names Ret Act, induct type: proc]:
  fixes P :: "('s, 'r) proc \<Rightarrow> bool"
  assumes "\<And>r. P (Ret r)"
    and "\<And>g. (\<And>s. P (snd (g s))) \<Longrightarrow> P (Act g)"
  shows "P p"
proof (rule proc.induct)
  fix g :: "'s \<Rightarrow> 's \<times> ('s, 'r) proc"
  assume *: "\<And>x q. x \<in> range g \<Longrightarrow> q \<in> Basic_BNFs.snds x \<Longrightarrow> P q"
  show "P (Act g)" by (rule assms(2), rule * [of "g s" for s]) (auto simp: snds.simps)
qed (rule assms(1))

primrec pbind :: "('s, 'e + 'a) proc \<Rightarrow> ('a \<Rightarrow> ('s, 'e + 'b) proc) \<Rightarrow> ('s, 'e + 'b) proc" where
  "pbind (Ret r) f = (case r of Inl e \<Rightarrow> Ret (Inl e) | Inr a \<Rightarrow> f a)"
| "pbind (Act g) f = Act (\<lambda>s. map_prod id (\<lambda>p. pbind p f) (g s))"

text \<open>\<open>pmap f p\<close> maps the result, errors included: \<open>map_err\<close>, \<open>unwrap_or\<close>, \<open>ok()\<close>.\<close>

primrec pmap :: "('r \<Rightarrow> 'q) \<Rightarrow> ('s, 'r) proc \<Rightarrow> ('s, 'q) proc" where
  "pmap h (Ret r) = Ret (h r)"
| "pmap h (Act g) = Act (\<lambda>s. map_prod id (pmap h) (g s))"

definition pure :: "'a \<Rightarrow> ('s, 'e + 'a) proc" where
  "pure a = Ret (Inr a)"

definition throw :: "'e \<Rightarrow> ('s, 'e + 'a) proc" where
  "throw e = Ret (Inl e)"

definition ensure :: "bool \<Rightarrow> 'e \<Rightarrow> ('s, 'e + unit) proc" where
  "ensure b e = (if b then pure () else throw e)"

text \<open>One atomic section: reads and writes the state once, may fail.\<close>

definition atomic :: "('s \<Rightarrow> ('e + 'a) \<times> 's) \<Rightarrow> ('s, 'e + 'a) proc" where
  "atomic m = Act (\<lambda>s. case m s of (r, s') \<Rightarrow> (s', Ret r))"

definition reads :: "('s \<Rightarrow> 'a) \<Rightarrow> ('s, 'e + 'a) proc" where
  "reads f = atomic (\<lambda>s. (Inr (f s), s))"

primrec run :: "('s, 'r) proc \<Rightarrow> 's \<Rightarrow> 'r \<times> 's" where
  "run (Ret r) = (\<lambda>s. (r, s))"
| "run (Act g) = (\<lambda>s. case map_prod id run (g s) of (s', k) \<Rightarrow> k s')"

lemma run_Act: "run (Act g) s = run (snd (g s)) (fst (g s))"
  by (cases "g s") simp

declare run.simps(2) [simp del]

lemma run_pbind [run_simps]:
  "run (pbind p f) s =
     (case run p s of (Inl e, s') \<Rightarrow> (Inl e, s') | (Inr a, s') \<Rightarrow> run (f a) s')"
proof (induction p arbitrary: s)
  case (Ret r)
  then show ?case by (simp split: sum.splits)
next
  case (Act g)
  then show ?case by (simp add: run_Act)
qed

lemma run_pmap [run_simps]: "run (pmap h p) s = (case run p s of (r, s') \<Rightarrow> (h r, s'))"
proof (induction p arbitrary: s)
  case (Ret r)
  then show ?case by simp
next
  case (Act g)
  then show ?case by (simp add: run_Act)
qed

lemma run_pure [run_simps]: "run (pure a) s = (Inr a, s)"
  by (simp add: pure_def)

lemma run_throw [run_simps]: "run (throw e) s = (Inl e, s)"
  by (simp add: throw_def)

lemma run_ensure [run_simps]: "run (ensure b e) s = (if b then Inr () else Inl e, s)"
  by (simp add: ensure_def run_simps)

lemma run_atomic [run_simps]: "run (atomic m) s = m s"
  by (cases "m s") (simp add: atomic_def run_Act)

lemma run_reads [run_simps]: "run (reads f) s = (Inr (f s), s)"
  by (simp add: reads_def run_simps)

lemma run_if [run_simps]: "run (if b then p else q) s = (if b then run p s else run q s)"
  by simp

lemma run_case_option [run_simps]:
  "run (case x of None \<Rightarrow> p | Some a \<Rightarrow> q a) s = (case x of None \<Rightarrow> run p s | Some a \<Rightarrow> run (q a) s)"
  by (simp split: option.splits)

lemma pbind_pure [simp]: "pbind (pure a) f = f a"
  by (simp add: pure_def)

lemma pbind_throw [simp]: "pbind (throw e) f = throw e"
  by (simp add: throw_def)

section \<open>Invariants of every atomic section\<close>

primrec safe :: "('s \<Rightarrow> bool) \<Rightarrow> ('s, 'r) proc \<Rightarrow> bool" where
  "safe I (Ret r) = True"
| "safe I (Act g) = (\<forall>s. (I s \<longrightarrow> I (fst (g s))) \<and> snd (map_prod id (safe I) (g s)))"

lemma safe_Act: "safe I (Act g) \<longleftrightarrow> (\<forall>s. (I s \<longrightarrow> I (fst (g s))) \<and> safe I (snd (g s)))"
  by simp

declare safe.simps(2) [simp del]

lemma safe_pbind [safe_rules]:
  "safe I p \<Longrightarrow> (\<And>a. safe I (f a)) \<Longrightarrow> safe I (pbind p f)"
proof (induction p)
  case (Ret r)
  then show ?case by (simp split: sum.splits)
next
  case (Act g)
  then show ?case by (simp add: safe_Act)
qed

lemma safe_pmap [safe_rules]: "safe I p \<Longrightarrow> safe I (pmap h p)"
proof (induction p)
  case (Ret r)
  then show ?case by simp
next
  case (Act g)
  then show ?case by (simp add: safe_Act)
qed

lemma safe_pure [safe_rules]: "safe I (pure a)"
  by (simp add: pure_def)

lemma safe_throw [safe_rules]: "safe I (throw e)"
  by (simp add: throw_def)

lemma safe_ensure [safe_rules]: "safe I (ensure b e)"
  by (simp add: ensure_def safe_rules)

lemma safe_atomic: "(\<And>s. I s \<Longrightarrow> I (snd (m s))) \<Longrightarrow> safe I (atomic m)"
  unfolding atomic_def safe_Act by (auto split: prod.splits) (metis snd_conv)

lemma safe_reads [safe_rules]: "safe I (reads f)"
  unfolding reads_def by (rule safe_atomic) simp

lemma safe_if [safe_rules]: "(b \<Longrightarrow> safe I p) \<Longrightarrow> (\<not> b \<Longrightarrow> safe I q) \<Longrightarrow> safe I (if b then p else q)"
  by simp

lemma safe_case_option [safe_rules]:
  "safe I p \<Longrightarrow> (\<And>a. safe I (q a)) \<Longrightarrow> safe I (case x of None \<Rightarrow> p | Some a \<Rightarrow> q a)"
  by (cases x) auto

lemma safe_case_sum [safe_rules]:
  "(\<And>a. safe I (p a)) \<Longrightarrow> (\<And>b. safe I (q b)) \<Longrightarrow> safe I (case x of Inl a \<Rightarrow> p a | Inr b \<Rightarrow> q b)"
  by (cases x) auto

lemma safe_case_prod [safe_rules]:
  "(\<And>a b. safe I (p a b)) \<Longrightarrow> safe I (case x of (a, b) \<Rightarrow> p a b)"
  by (cases x) auto

lemma safe_run: "safe I p \<Longrightarrow> I s \<Longrightarrow> I (snd (run p s))"
proof (induction p arbitrary: s)
  case (Ret r)
  then show ?case by simp
next
  case (Act g)
  then show ?case by (simp add: safe_Act run_Act)
qed

text \<open>An invariant of whole uninterrupted runs: \<open>keeps I p\<close> is weaker than \<open>safe I p\<close>.\<close>

definition keeps :: "('s \<Rightarrow> bool) \<Rightarrow> ('s, 'r) proc \<Rightarrow> bool" where
  "keeps I p \<longleftrightarrow> (\<forall>s. I s \<longrightarrow> I (snd (run p s)))"

lemma keepsI: "(\<And>s. I s \<Longrightarrow> I (snd (run p s))) \<Longrightarrow> keeps I p"
  by (simp add: keeps_def)

lemma keepsD: "keeps I p \<Longrightarrow> I s \<Longrightarrow> I (snd (run p s))"
  by (simp add: keeps_def)

lemma keeps_safe: "safe I p \<Longrightarrow> keeps I p"
  by (simp add: keeps_def safe_run)

lemma keeps_pbind [keeps_rules]:
  assumes "keeps I p" "\<And>a. keeps I (f a)"
  shows "keeps I (pbind p f)"
proof (rule keepsI)
  fix s assume "I s"
  then have "I (snd (run p s))" using assms(1) by (rule keepsD [rotated])
  then show "I (snd (run (pbind p f) s))"
    using assms(2) by (auto simp: run_pbind keepsD split: prod.split sum.split)
qed

lemma keeps_if [keeps_rules]: "keeps I p \<Longrightarrow> keeps I q \<Longrightarrow> keeps I (if b then p else q)"
  by simp

lemma keeps_case_option [keeps_rules]:
  "keeps I p \<Longrightarrow> (\<And>a. keeps I (q a)) \<Longrightarrow> keeps I (case x of None \<Rightarrow> p | Some a \<Rightarrow> q a)"
  by (cases x) auto

lemma keeps_pure [keeps_rules]: "keeps I (pure a)"
  by (rule keeps_safe, rule safe_pure)

lemma keeps_throw [keeps_rules]: "keeps I (throw e)"
  by (rule keeps_safe, rule safe_throw)

lemma keeps_reads [keeps_rules]: "keeps I (reads f)"
  by (rule keeps_safe, rule safe_reads)

section \<open>Interleaving\<close>

text \<open>
  A pool of requests in flight. \<open>sched env step\<close>: some request in the pool executes its next
  atomic section, a new request arrives, or the environment (clock, faults of the engine) moves.
\<close>

inductive sched ::
  "('s \<Rightarrow> 's \<Rightarrow> bool) \<Rightarrow> (('s, 'r) proc \<Rightarrow> bool) \<Rightarrow> 's \<times> ('s, 'r) proc list \<Rightarrow> 's \<times> ('s, 'r) proc list \<Rightarrow> bool"
  for env req
where
  sched_act: "i < length ps \<Longrightarrow> ps ! i = Act g \<Longrightarrow> sched env req (s, ps) (fst (g s), ps[i := snd (g s)])"
| sched_new: "req p \<Longrightarrow> sched env req (s, ps) (s, p # ps)"
| sched_env: "env s s' \<Longrightarrow> sched env req (s, ps) (s', ps)"

inductive sched_reach ::
  "('s \<Rightarrow> 's \<Rightarrow> bool) \<Rightarrow> (('s, 'r) proc \<Rightarrow> bool) \<Rightarrow> 's \<Rightarrow> 's \<times> ('s, 'r) proc list \<Rightarrow> bool"
  for env req s0
where
  reach_start: "sched_reach env req s0 (s0, [])"
| reach_step: "sched_reach env req s0 c \<Longrightarrow> sched env req c c' \<Longrightarrow> sched_reach env req s0 c'"

inductive_cases sched_cases [consumes 1, case_names act new env]: "sched env req (s, ps) c"

lemma sched_safe:
  assumes "sched_reach env req s0 (s, ps)" and "I s0"
    and req: "\<And>p. req p \<Longrightarrow> safe I p"
    and env: "\<And>s s'. I s \<Longrightarrow> env s s' \<Longrightarrow> I s'"
  shows "I s"
proof -
  have "I (fst c) \<and> (\<forall>p \<in> set (snd c). safe I p)" if "sched_reach env req s0 c" for c
    using that
  proof (induction rule: sched_reach.induct)
    case reach_start
    then show ?case using assms(2) by simp
  next
    case (reach_step c c')
    from reach_step.hyps(2) reach_step.IH show ?case
    proof (induction rule: sched.induct)
      case (sched_act i ps g s)
      then have "safe I (Act g)" by (metis nth_mem snd_conv)
      with sched_act show ?case
        by (auto simp: safe_Act dest!: set_update_subset_insert [THEN subsetD])
    qed (use req env in auto)
  qed
  from this [OF assms(1)] show ?thesis by simp
qed

text \<open>
  One request of a pool runs through its next sections without interruption: a finite execution, for
  the theorems that show an interleaving.
\<close>

lemma sched_prefix:
  assumes "i < length ps" "ps ! i = pbind p k" "run p s = (Inr a, s')"
  shows "(sched env req)\<^sup>*\<^sup>* (s, ps) (s', ps[i := k a])"
  using assms
proof (induction p arbitrary: s ps)
  case (Ret r)
  then have "ps[i := k a] = ps" by (metis list_update_id pbind.simps(1) prod.inject run.simps(1) sum.simps(6))
  with Ret show ?case by simp
next
  case (Act g)
  have "sched env req (s, ps) (fst (g s), ps[i := pbind (snd (g s)) k])"
    using sched_act [of i ps "\<lambda>s. map_prod id (\<lambda>p. pbind p k) (g s)" env req s] Act.prems by simp
  moreover have "(sched env req)\<^sup>*\<^sup>* (fst (g s), ps[i := pbind (snd (g s)) k])
      (s', (ps[i := pbind (snd (g s)) k])[i := k a])"
    by (rule Act.IH) (use Act.prems in \<open>simp_all add: run_Act\<close>)
  ultimately show ?case by (simp add: converse_rtranclp_into_rtranclp)
qed

lemma pbind_pure_right: "pbind p pure = p"
proof (induction p)
  case (Ret r)
  then show ?case by (cases r) (simp_all add: pure_def)
next
  case (Act g)
  then have "map_prod id (\<lambda>p. pbind p pure) (g s) = g s" for s by (cases "g s") (metis map_prod_simp id_apply snd_conv)
  then show ?case by simp
qed

lemma sched_run:
  assumes "i < length ps" "ps ! i = p" "run p s = (Inr a, s')"
  shows "(sched env req)\<^sup>*\<^sup>* (s, ps) (s', ps[i := pure a])"
  using sched_prefix [of i ps p pure] assms by (simp add: pbind_pure_right)

lemma sched_stage:
  assumes "i < length ps" "run p s = (Inr a, s')" "(sched env req)\<^sup>*\<^sup>* (s', ps[i := k a]) c"
  shows "(sched env req)\<^sup>*\<^sup>* (s, ps[i := pbind p k]) c"
  using sched_prefix [of i "ps[i := pbind p k]" p k s a s' env req] assms by simp

lemma sched_reach_steps: "(sched env req)\<^sup>*\<^sup>* c c' \<Longrightarrow> sched_reach env req s0 c \<Longrightarrow> sched_reach env req s0 c'"
  by (induction rule: rtranclp_induct) (auto intro: reach_step)

section \<open>Hash maps\<close>

text \<open>
  \<open>std::collections::HashMap\<close>: \<open>get\<close> is \<open>map_of\<close>, \<open>insert\<close> is \<open>AList.update\<close> (an existing key
  keeps its one entry), \<open>remove\<close> is \<open>AList.delete\<close>, \<open>retain\<close> is \<open>filter\<close>, \<open>len\<close> is \<open>length\<close>
  because the keys stay distinct. Nothing proved depends on the order of the entries, which
  the source leaves open too.
\<close>

type_synonym ('k, 'v) hmap = "('k \<times> 'v) list"

definition keys_ok :: "('k, 'v) hmap \<Rightarrow> bool" where
  "keys_ok m \<longleftrightarrow> distinct (map fst m)"

locale keyed_store =
  fixes empty :: "'m"
    and get :: "'m \<Rightarrow> 'k \<Rightarrow> 'v option"
    and put :: "'k \<Rightarrow> 'v \<Rightarrow> 'm \<Rightarrow> 'm"
    and del :: "'k \<Rightarrow> 'm \<Rightarrow> 'm"
    and ok :: "'m \<Rightarrow> bool"
    and len :: "'m \<Rightarrow> nat"
  assumes ok_empty: "ok empty"
    and ok_put: "ok m \<Longrightarrow> ok (put k v m)"
    and ok_del: "ok m \<Longrightarrow> ok (del k m)"
    and get_empty: "get empty k = None"
    and get_put: "get (put k v m) k' = (if k' = k then Some v else get m k')"
    and get_del: "ok m \<Longrightarrow> get (del k m) k' = (if k' = k then None else get m k')"
    and len_empty: "len empty = 0"
    and len_put: "ok m \<Longrightarrow> len (put k v m) = (if get m k = None then Suc (len m) else len m)"
    and len_del: "ok m \<Longrightarrow> len (del k m) = (if get m k = None then len m else len m - 1)"
begin

lemma put_put: "get (put k v (put k w m)) k' = get (put k v m) k'"
  by (simp add: get_put)

lemma take_out: "ok m \<Longrightarrow> get m k = Some v \<Longrightarrow> get (del k m) k = None \<and> (k' \<noteq> k \<longrightarrow> get (del k m) k' = get m k')"
  by (simp add: get_del)

lemma len_put_le: "ok m \<Longrightarrow> len (put k v m) \<le> Suc (len m)"
  by (simp add: len_put)

lemma len_del_le: "ok m \<Longrightarrow> len (del k m) \<le> len m"
  by (simp add: len_del)

end

lemma map_of_delete: "map_of (AList.delete k m) k' = (if k' = k then None else map_of m k')"
  by (induction m) auto

lemma map_of_update: "map_of (AList.update k v m) k' = (if k' = k then Some v else map_of m k')"
  by (simp add: AList.update_conv')

lemma length_update:
  "length (AList.update k v m) = (if map_of m k = None then Suc (length m) else length m)"
  by (induction m) auto

lemma length_delete:
  "keys_ok m \<Longrightarrow> length (AList.delete k m) = (if map_of m k = None then length m else length m - 1)"
proof (induction m)
  case Nil
  then show ?case by (simp add: AList.delete_eq)
next
  case (Cons x m)
  have "map_of m (fst x) = None" using Cons.prems by (simp add: keys_ok_def map_of_eq_None_iff)
  moreover have "keys_ok m" using Cons.prems by (simp add: keys_ok_def)
  moreover have "0 < length m" if "map_of m k \<noteq> None" using that by (cases m) auto
  ultimately show ?case using Cons.IH by (cases x) (auto simp: AList.delete_eq split: if_splits)
qed

interpretation hm: keyed_store "[]" map_of AList.update AList.delete keys_ok length
  by unfold_locales
    (auto simp: keys_ok_def AList.distinct_update AList.distinct_delete map_of_update map_of_delete
      length_update length_delete [unfolded keys_ok_def])

text \<open>Two stores with the same kind of keys, and an entry that moves from one to the other.\<close>

locale store_pair =
  src: keyed_store empty1 get1 put1 del1 ok1 len1 + dst: keyed_store empty2 get2 put2 del2 ok2 len2
  for empty1 :: 'm and get1 :: "'m \<Rightarrow> 'k \<Rightarrow> 'v option" and put1 del1 ok1 len1
    and empty2 :: 'n and get2 :: "'n \<Rightarrow> 'k \<Rightarrow> 'w option" and put2 del2 ok2 len2
begin

definition disjoint :: "'m \<Rightarrow> 'n \<Rightarrow> bool" where
  "disjoint m n \<longleftrightarrow> (\<forall>k. get1 m k = None \<or> get2 n k = None)"

lemma handover_disjoint: "ok1 m \<Longrightarrow> disjoint m n \<Longrightarrow> disjoint (del1 a m) (put2 a w n)"
  by (auto simp: disjoint_def src.get_del dst.get_put)

lemma handover_count:
  "ok1 m \<Longrightarrow> ok2 n \<Longrightarrow> disjoint m n \<Longrightarrow> get1 m a = Some v \<Longrightarrow> 0 < len1 m \<Longrightarrow>
     len1 (del1 a m) + len2 (put2 a w n) = len1 m + len2 n"
  unfolding disjoint_def by (erule allE [of _ a]) (simp add: src.len_del dst.len_put)

lemma put1_disjoint: "disjoint m n \<Longrightarrow> get2 n a = None \<Longrightarrow> disjoint (put1 a v m) n"
  by (auto simp: disjoint_def src.get_put)

lemma del2_disjoint: "ok2 n \<Longrightarrow> disjoint m n \<Longrightarrow> disjoint m (del2 a n)"
  by (auto simp: disjoint_def dst.get_del)

end

interpretation hms: store_pair "[]" map_of AList.update AList.delete keys_ok length
    "[]" map_of AList.update AList.delete keys_ok length
  by unfold_locales

text \<open>A first-in first-out channel: what was sent and not yet received.\<close>

locale fifo =
  fixes queue :: "'c \<Rightarrow> 'm list" and send :: "'m \<Rightarrow> 'c \<Rightarrow> 'c" and recv :: "'c \<Rightarrow> ('m \<times> 'c) option"
  assumes queue_send: "queue (send m c) = queue c @ [m]"
    and recv_None: "recv c = None \<longleftrightarrow> queue c = []"
    and recv_Some: "recv c = Some (m, c') \<Longrightarrow> queue c = m # queue c'"
begin

lemma queue_sends: "queue (fold send ms c) = queue c @ ms"
  by (induction ms arbitrary: c) (auto simp: queue_send)

text \<open>The history of a channel, received then queued, grows at the end and never reorders.\<close>

lemma history_send: "got @ queue c = hist \<Longrightarrow> got @ queue (send m c) = hist @ [m]"
  by (simp add: queue_send)

lemma history_sends: "got @ queue c = hist \<Longrightarrow> got @ queue (fold send ms c) = hist @ ms"
  by (simp add: queue_sends)

lemma history_recv: "got @ queue c = hist \<Longrightarrow> recv c = Some (m, c') \<Longrightarrow> (got @ [m]) @ queue c' = hist"
  using recv_Some by fastforce

lemma drain: "length (queue c) = n \<Longrightarrow> queue c \<noteq> [] \<Longrightarrow> \<exists>m c'. recv c = Some (m, c') \<and> length (queue c') < n"
  using recv_None recv_Some by (cases "recv c") fastforce+

end

lemma keys_ok_filter: "keys_ok m \<Longrightarrow> keys_ok (filter P m)"
  by (simp add: keys_ok_def distinct_map_filter)

lemma map_of_filter_None: "map_of m k = None \<Longrightarrow> map_of (filter P m) k = None"
  by (induction m) (auto split: if_splits)

section \<open>First match in a list\<close>

lemma find_SomeD: "List.find P xs = Some x \<Longrightarrow> P x \<and> x \<in> set xs"
  by (induction xs) (auto split: if_splits)

lemma find_NoneD: "List.find P xs = None \<Longrightarrow> x \<in> set xs \<Longrightarrow> \<not> P x"
  by (induction xs) (auto split: if_splits)

lemma find_key: "distinct (map f xs) \<Longrightarrow> x \<in> set xs \<Longrightarrow> List.find (\<lambda>y. f y = f x) xs = Some x"
  by (induction xs) (auto simp: image_iff)

lemma find_map: "(\<And>x. P (f x) = P x) \<Longrightarrow> List.find P (map f xs) = map_option f (List.find P xs)"
  by (induction xs) auto

lemma find_map_other: "(\<And>x. P (f x) \<longleftrightarrow> P x) \<Longrightarrow> (\<And>x. P x \<Longrightarrow> f x = x) \<Longrightarrow> List.find P (map f xs) = List.find P xs"
  by (induction xs) auto

lemma find_filter: "(\<And>x. x \<in> set xs \<Longrightarrow> P x \<Longrightarrow> Q x) \<Longrightarrow> List.find P (filter Q xs) = List.find P xs"
  by (induction xs) auto

lemma find_insort: "\<not> P x \<Longrightarrow> List.find P (insort_key k x xs) = List.find P xs"
  by (induction xs) auto

lemma find_insort_own: "k x = c \<Longrightarrow> c \<notin> k ` set xs \<Longrightarrow> List.find (\<lambda>y. k y = c) (insort_key k x xs) = Some x"
  by (induction xs) auto

lemma find_append: "List.find P (xs @ ys) = (case List.find P xs of None \<Rightarrow> List.find P ys | Some x \<Rightarrow> Some x)"
  by (induction xs) auto

lemma insort_key_map: "insort_key k (f x) (map f xs) = map f (insort_key (\<lambda>a. k (f a)) x xs)"
  by (induction xs) auto

lemma sort_key_map: "sort_key k (map f xs) = map f (sort_key (\<lambda>a. k (f a)) xs)"
  by (induction xs) (simp_all add: insort_key_map)

section \<open>Strings\<close>

text \<open>
  A Rust \<open>String\<close> is the sequence of its UTF-8 bytes, and so is a \<open>string\<close> here: a \<open>char\<close> of
  HOL is a byte.
\<close>

definition as_bytes :: "string \<Rightarrow> bytes" where
  "as_bytes s = map (\<lambda>c. of_nat (of_char c)) s"

text \<open>\<open>str::strip_prefix\<close>.\<close>

fun strip_prefix :: "string \<Rightarrow> string \<Rightarrow> string option" where
  "strip_prefix [] s = Some s"
| "strip_prefix (p # ps) [] = None"
| "strip_prefix (p # ps) (c # cs) = (if p = c then strip_prefix ps cs else None)"

lemma strip_prefix_iff: "strip_prefix p s = Some r \<longleftrightarrow> s = p @ r"
  by (induction p s rule: strip_prefix.induct) auto

text \<open>\<open>str.chars().count()\<close>: the bytes that start a code point (not \<open>10xxxxxx\<close>).\<close>

definition char_count :: "string \<Rightarrow> nat" where
  "char_count s = length (filter (\<lambda>c. \<not> (128 \<le> (of_char c :: nat) \<and> (of_char c :: nat) < 192)) s)"

lemma as_bytes_inj: "as_bytes s = as_bytes t \<longleftrightarrow> s = t"
proof -
  have "inj (\<lambda>c :: char. (of_nat (of_char c) :: 8 word))"
  proof (rule injI)
    fix x y :: char
    assume "(of_nat (of_char x) :: 8 word) = of_nat (of_char y)"
    then have "unat (of_nat (of_char x) :: 8 word) = unat (of_nat (of_char y) :: 8 word)" by simp
    moreover have "(of_char c :: nat) < 256" for c :: char by simp
    ultimately have "(of_char x :: nat) = of_char y" by (simp add: unat_of_nat)
    then show "x = y" by simp
  qed
  then show ?thesis unfolding as_bytes_def by (rule inj_map_eq_map)
qed

end
