(* ===== verification/Errors.thy ===== *)
theory Errors
  imports Prelude
begin

text \<open>
  JSON values, HTTP responses and the error type of the API (\<open>src/error.rs\<close>).

  \<open>serde_json::Value\<close> is the datatype \<open>json\<close>; an object is the list of its members. A JSON number
  is an integer (\<open>JInt\<close>) or anything else (\<open>JReal\<close>, kept as its text: the server never computes
  with it). A response is its status code and its body; a WebSocket upgrade is status 101.
  The text of a database error comes from the driver, so \<open>into_response\<close> takes it as a parameter.
\<close>

datatype json =
    JNull
  | JBool bool
  | JInt int
  | JReal string
  | JStr string
  | JArr "json list"
  | JObj "(string \<times> json) list"

text \<open>\<open>value["key"]\<close>: \<open>Null\<close> when the value is not an object or has no such member.\<close>

fun json_index :: "json \<Rightarrow> string \<Rightarrow> json" where
  "json_index (JObj kvs) k = (case map_of kvs k of None \<Rightarrow> JNull | Some v \<Rightarrow> v)"
| "json_index v k = JNull"

fun as_str :: "json \<Rightarrow> string option" where
  "as_str (JStr s) = Some s"
| "as_str v = None"

datatype body = JsonBody json | TextBody string | EmptyBody | UpgradeBody

record response =
  status :: nat
  body :: body

definition json_response :: "nat \<Rightarrow> (string \<times> json) list \<Rightarrow> response" where
  "json_response c kvs = \<lparr>status = c, body = JsonBody (JObj kvs)\<rparr>"

definition text_response :: "nat \<Rightarrow> string \<Rightarrow> response" where
  "text_response c t = \<lparr>status = c, body = TextBody t\<rparr>"

definition no_content :: response where
  "no_content = \<lparr>status = 204, body = EmptyBody\<rparr>"

definition switching_protocols :: response where
  "switching_protocols = \<lparr>status = 101, body = UpgradeBody\<rparr>"

text \<open>
  What a statement can fail with: a constraint of the schema (named), no row where one was
  required (\<open>fetch_one\<close>), or the engine itself (I/O, lock timeout, closed pool).
\<close>

datatype sqlx_error = Constraint string | RowNotFound | Engine

datatype app_error =
    Db sqlx_error
  | NotFound string
  | Conflict string
  | BadRequest string
  | Forbidden string
  | Unauthorized
  | TooManyRequests
  | Internal string

text \<open>A handler ends with an error of the API or with a panic of its task.\<close>

datatype exn = Fail app_error | Panic

fun error_parts :: "(sqlx_error \<Rightarrow> string) \<Rightarrow> app_error \<Rightarrow> nat \<times> string \<times> string option" where
  "error_parts txt (NotFound e) = (404, e, None)"
| "error_parts txt (Conflict e) = (409, e, None)"
| "error_parts txt (BadRequest e) = (400, ''bad_request'', Some e)"
| "error_parts txt (Forbidden e) = (403, e, None)"
| "error_parts txt Unauthorized = (401, ''unauthorized'', None)"
| "error_parts txt TooManyRequests = (429, ''rate_limited'', None)"
| "error_parts txt (Db e) = (500, ''db_error'', Some (txt e))"
| "error_parts txt (Internal e) = (500, ''internal_error'', Some e)"

definition into_response :: "(sqlx_error \<Rightarrow> string) \<Rightarrow> app_error \<Rightarrow> response" where
  "into_response txt err =
     (case error_parts txt err of (c, code, detail) \<Rightarrow>
        (case detail of
           Some d \<Rightarrow> json_response c [(''error'', JStr code), (''detail'', JStr d)]
         | None \<Rightarrow> json_response c [(''error'', JStr code)]))"

text \<open>What a client sees: a panicking task drops the connection without a response.\<close>

definition client_view :: "(sqlx_error \<Rightarrow> string) \<Rightarrow> exn + response \<Rightarrow> response option" where
  "client_view txt r =
     (case r of Inr resp \<Rightarrow> Some resp | Inl (Fail e) \<Rightarrow> Some (into_response txt e) | Inl Panic \<Rightarrow> None)"

fun body_error :: "body \<Rightarrow> string option" where
  "body_error (JsonBody v) = as_str (json_index v ''error'')"
| "body_error b = None"

lemma into_response_status: "status (into_response txt e) = fst (error_parts txt e)"
  by (auto simp: into_response_def json_response_def split: prod.splits option.splits)

lemma into_response_code: "body_error (body (into_response txt e)) = Some (fst (snd (error_parts txt e)))"
  by (auto simp: into_response_def json_response_def split: prod.splits option.splits)

end
