(* ===== verification/Externals.thy ===== *)
theory Externals
  imports Errors
begin

text \<open>
  Code the server calls and that is not in the repository: the crates \<open>sha2\<close>, \<open>hex\<close>, \<open>base64\<close>,
  \<open>regex\<close>, \<open>semver\<close>, \<open>chrono\<close>, \<open>serde_json\<close>, \<open>x25519-dalek\<close>, \<open>hkdf\<close>, \<open>aes-gcm\<close>, the date
  functions of the SQL engine, and the Unicode tables behind \<open>str::to_lowercase\<close>. Each is a field
  of the record \<open>ext\<close>, a parameter of every definition that uses it. What the code relies on is
  stated by the predicates below; a theorem that needs one takes it as a hypothesis.

  An instant of the wall clock is a number of nanoseconds since the epoch. \<open>to_rfc3339\<close> and
  \<open>sql_datetime\<close> are the two texts the server stores for it: the first by \<open>chrono\<close> for
  \<open>tokens.expires_at\<close>, the second by \<open>datetime('now')\<close>.
\<close>

record 'v ext =
  sha256 :: "bytes \<Rightarrow> bytes"
  hex_encode :: "bytes \<Rightarrow> string"
  b64_encode :: "bytes \<Rightarrow> string"
  b64_decode :: "string \<Rightarrow> bytes option"
  b64_error :: "string \<Rightarrow> string"
  regex_new :: "string \<Rightarrow> string + (string \<Rightarrow> bool)"
  semver_parse :: "string \<Rightarrow> 'v option"
  semver_ge :: "'v \<Rightarrow> 'v \<Rightarrow> bool"
  to_lowercase :: "string \<Rightarrow> string"
  to_rfc3339 :: "nat \<Rightarrow> string"
  sql_datetime :: "nat \<Rightarrow> string"
  sql_minutes_ago :: "nat \<Rightarrow> nat \<Rightarrow> string option"
  add_days :: "nat \<Rightarrow> nat \<Rightarrow> nat option"
  json_parse :: "string \<Rightarrow> json option"
  json_print :: "json \<Rightarrow> string"
  sqlx_text :: "sqlx_error \<Rightarrow> string"
  uuid_text :: "bytes \<Rightarrow> string"
  dh_public :: "bytes \<Rightarrow> bytes"
  dh_shared :: "bytes \<Rightarrow> bytes \<Rightarrow> bytes"
  hkdf_expand :: "bytes \<Rightarrow> string \<Rightarrow> nat \<Rightarrow> string + bytes"
  aes_encrypt :: "bytes \<Rightarrow> bytes \<Rightarrow> bytes \<Rightarrow> string + bytes"

section \<open>Documented behaviour\<close>

definition day_of :: "nat \<Rightarrow> nat" where
  "day_of t = t div (86400 * 1000000000)"

text \<open>
  A calendar text: the days up to 9999-12-31 (day 2932896) have ten-character texts, in order.
  Both date texts start with the day; the next character is a \<open>T\<close> in RFC 3339 and a space in the
  engine's format.
\<close>

definition last_day :: nat where "last_day = 2932896"

definition calendar_text :: "(nat \<Rightarrow> string) \<Rightarrow> bool" where
  "calendar_text d \<longleftrightarrow>
     (\<forall>m. m \<le> last_day \<longrightarrow> length (d m) = 10) \<and> (\<forall>m n. m < n \<and> n \<le> last_day \<longrightarrow> d m < d n)"

definition clock_texts :: "'v ext \<Rightarrow> (nat \<Rightarrow> string) \<Rightarrow> bool" where
  "clock_texts E d \<longleftrightarrow> calendar_text d \<and>
     (\<forall>t. day_of t \<le> last_day \<longrightarrow> (\<exists>u. to_rfc3339 E t = d (day_of t) @ ''T'' @ u)) \<and>
     (\<forall>t. day_of t \<le> last_day \<longrightarrow> (\<exists>u. sql_datetime E t = d (day_of t) @ '' '' @ u))"

text \<open>The engine's texts are ordered as the instants are, to the second.\<close>

definition sql_clock_ordered :: "'v ext \<Rightarrow> bool" where
  "sql_clock_ordered E \<longleftrightarrow>
     (\<forall>s t. day_of s \<le> last_day \<and> day_of t \<le> last_day \<longrightarrow>
        (sql_datetime E s < sql_datetime E t \<longleftrightarrow> s div 1000000000 < t div 1000000000))"

definition sql_minutes_ok :: "'v ext \<Rightarrow> bool" where
  "sql_minutes_ok E \<longleftrightarrow>
     (\<forall>t n. n * 60000000000 \<le> t \<longrightarrow> sql_minutes_ago E t n = Some (sql_datetime E (t - n * 60000000000)))"

definition hex_ok :: "'v ext \<Rightarrow> bool" where
  "hex_ok E \<longleftrightarrow>
     (\<forall>b. length (hex_encode E b) = 2 * length b \<and> set (hex_encode E b) \<subseteq> set ''0123456789abcdef'')"

definition base64_ok :: "'v ext \<Rightarrow> bool" where
  "base64_ok E \<longleftrightarrow> (\<forall>b. b64_decode E (b64_encode E b) = Some b)"

text \<open>\<open>ASCII\<close> is lowered letter by letter.\<close>

definition ascii_lower :: "char \<Rightarrow> char" where
  "ascii_lower c = (let n = (of_char c :: nat) in if 65 \<le> n \<and> n \<le> 90 then char_of (n + 32) else c)"

definition lowercase_ok :: "'v ext \<Rightarrow> bool" where
  "lowercase_ok E \<longleftrightarrow> (\<forall>s. (\<forall>c \<in> set s. (of_char c :: nat) < 128) \<longrightarrow> to_lowercase E s = map ascii_lower s)"

section \<open>Text comparison across the two date formats\<close>

lemma list_less_append_eq_length:
  fixes xs ys :: "'a :: linorder list"
  assumes "length xs = length ys"
  shows "xs @ us < ys @ vs \<longleftrightarrow> xs < ys \<or> xs = ys \<and> us < vs"
  using assms by (induction xs ys rule: list_induct2) auto

lemma clock_texts_compare:
  assumes ck: "clock_texts E d" and e: "day_of e \<le> last_day" and n: "day_of n \<le> last_day"
  shows "sql_datetime E n < to_rfc3339 E e \<longleftrightarrow> day_of n \<le> day_of e"
proof -
  obtain u where u: "to_rfc3339 E e = d (day_of e) @ ''T'' @ u"
    using ck e unfolding clock_texts_def by blast
  obtain v where v: "sql_datetime E n = d (day_of n) @ '' '' @ v"
    using ck n unfolding clock_texts_def by blast
  have cal: "calendar_text d" using ck by (simp add: clock_texts_def)
  then have len: "length (d (day_of n)) = length (d (day_of e))" using e n by (simp add: calendar_text_def)
  have ord: "d x < d y" if "x < y" "y \<le> last_day" for x y using cal that by (auto simp: calendar_text_def)
  have "'' '' @ v < ''T'' @ u" by (simp add: less_char_def)
  then have "sql_datetime E n < to_rfc3339 E e \<longleftrightarrow> d (day_of n) < d (day_of e) \<or> d (day_of n) = d (day_of e)"
    unfolding u v by (simp only: list_less_append_eq_length [OF len] simp_thms)
  also have "\<dots> \<longleftrightarrow> day_of n \<le> day_of e"
  proof (cases "day_of n" "day_of e" rule: linorder_cases)
    case less
    then show ?thesis using ord e by simp
  next
    case greater
    then have "d (day_of e) < d (day_of n)" using ord n by simp
    with greater show ?thesis by (metis less_asym less_irrefl not_le)
  qed simp
  finally show ?thesis .
qed

end
