(* ===== verification/Db.thy ===== *)
theory Db
  imports Externals
begin

text \<open>
  The database (\<open>src/db.rs\<close>) and the SQL statements of the handlers. A table is the list of its
  rows in the order a scan meets them; each statement of the source is one definition, named after
  what it does, taking its bound parameters in order. A statement returns the driver's result or
  its error, and the database after it; a failed statement changes nothing. Constraints are those
  of the schema: \<open>UNIQUE\<close>, \<open>PRIMARY KEY\<close> and \<open>REFERENCES\<close> (the driver turns foreign keys on).
  Texts compare bytewise, as the default collation does.

  \<open>db_ok\<close> is the schema as an invariant: every statement keeps it (collection \<open>db_rules\<close>).
\<close>

named_theorems db_rules

section \<open>Schema and migration\<close>

type_synonym column = "string \<times> string"
type_synonym schema = "(string \<times> column list) list"

datatype ddl =
    CreateTableIfNotExists string "column list"
  | AddColumn string column

fun exec_ddl :: "ddl \<Rightarrow> schema \<Rightarrow> sqlx_error + schema" where
  "exec_ddl (CreateTableIfNotExists t cols) sc =
     (if map_of sc t = None then Inr (sc @ [(t, cols)]) else Inr sc)"
| "exec_ddl (AddColumn t col) sc =
     (case map_of sc t of
        None \<Rightarrow> Inl Engine
      | Some cols \<Rightarrow>
          if fst col \<in> fst ` set cols then Inl Engine
          else Inr (AList.map_entry t (\<lambda>cols. cols @ [col]) sc))"

definition users_table :: ddl where
  "users_table = CreateTableIfNotExists ''users''
     [(''id'', ''INTEGER PRIMARY KEY AUTOINCREMENT''), (''username'', ''TEXT UNIQUE NOT NULL''),
      (''username_lc'', ''TEXT UNIQUE NOT NULL''), (''pubkey'', ''TEXT NOT NULL''), (''email'', ''TEXT''),
      (''created_at'', ''TEXT DEFAULT (datetime('now'))'')]"

definition presence_table :: ddl where
  "presence_table = CreateTableIfNotExists ''presence''
     [(''user_id'', ''INTEGER PRIMARY KEY REFERENCES users(id) ON DELETE CASCADE''),
      (''ip'', ''TEXT NOT NULL''), (''port'', ''INTEGER NOT NULL''),
      (''last_seen'', ''TEXT DEFAULT (datetime('now'))'')]"

definition tokens_table :: ddl where
  "tokens_table = CreateTableIfNotExists ''tokens''
     [(''id'', ''INTEGER PRIMARY KEY AUTOINCREMENT''),
      (''user_id'', ''INTEGER NOT NULL REFERENCES users(id) ON DELETE CASCADE''),
      (''token_hash'', ''TEXT UNIQUE NOT NULL''), (''created_at'', ''TEXT DEFAULT (datetime('now'))''),
      (''expires_at'', ''TEXT'')]"

definition invites_table :: ddl where
  "invites_table = CreateTableIfNotExists ''invites''
     [(''code'', ''TEXT PRIMARY KEY''), (''created_by'', ''INTEGER REFERENCES users(id) ON DELETE SET NULL''),
      (''used_by'', ''INTEGER REFERENCES users(id) ON DELETE SET NULL''),
      (''created_at'', ''TEXT DEFAULT (datetime('now'))''), (''used_at'', ''TEXT'')]"

definition relay_sessions_table :: ddl where
  "relay_sessions_table = CreateTableIfNotExists ''relay_sessions''
     [(''id'', ''TEXT PRIMARY KEY''), (''creator_id'', ''INTEGER REFERENCES users(id) ON DELETE SET NULL''),
      (''joiner_id'', ''INTEGER REFERENCES users(id) ON DELETE SET NULL''),
      (''created_at'', ''TEXT DEFAULT (datetime('now'))''), (''bytes_total'', ''INTEGER DEFAULT 0'')]"

definition role_column :: column where
  "role_column = (''role'', ''TEXT NOT NULL DEFAULT 'member'' @ [CHR 0x27])"

definition group_members_table :: ddl where
  "group_members_table = CreateTableIfNotExists ''group_members''
     [(''id'', ''INTEGER PRIMARY KEY AUTOINCREMENT''), (''username'', ''TEXT UNIQUE NOT NULL''),
      (''pubkey'', ''TEXT NOT NULL''), (''token_hash'', ''TEXT UNIQUE NOT NULL''), role_column,
      (''joined_at'', ''TEXT DEFAULT (datetime('now'))'')]"

definition group_messages_table :: ddl where
  "group_messages_table = CreateTableIfNotExists ''group_messages''
     [(''id'', ''INTEGER PRIMARY KEY AUTOINCREMENT''), (''sender'', ''TEXT NOT NULL''),
      (''data'', ''TEXT NOT NULL''), (''ts'', ''INTEGER NOT NULL'')]"

definition group_config_table :: ddl where
  "group_config_table = CreateTableIfNotExists ''group_config''
     [(''key'', ''TEXT PRIMARY KEY''), (''value'', ''TEXT NOT NULL'')]"

text \<open>
  The statements of \<open>migrate\<close> with, for each, whether its error is ignored (\<open>let _ =\<close>) or returned
  (\<open>?\<close>).
\<close>

definition migrate_steps :: "string \<Rightarrow> (ddl \<times> bool) list" where
  "migrate_steps mode =
     [(users_table, False), (presence_table, False), (tokens_table, False), (invites_table, False),
      (relay_sessions_table, False)] @
     (if mode = ''group'' \<or> mode = ''channel''
      then [(group_members_table, False), (AddColumn ''group_members'' role_column, True),
            (group_messages_table, False), (group_config_table, False)]
      else [])"

fun migrate_run :: "(ddl \<times> bool) list \<Rightarrow> schema \<Rightarrow> sqlx_error + schema" where
  "migrate_run [] sc = Inr sc"
| "migrate_run ((d, ignore) # ds) sc =
     (case exec_ddl d sc of
        Inr sc' \<Rightarrow> migrate_run ds sc'
      | Inl e \<Rightarrow> if ignore then migrate_run ds sc else Inl e)"

definition migrate :: "string \<Rightarrow> schema \<Rightarrow> sqlx_error + schema" where
  "migrate mode sc = migrate_run (migrate_steps mode) sc"

section \<open>Rows\<close>

record user_row =
  u_id :: nat
  u_name :: string
  u_lc :: string
  u_pubkey :: string
  u_email :: "string option"
  u_created :: string

record presence_row =
  p_user :: nat
  p_ip :: string
  p_port :: nat
  p_seen :: string

record token_row =
  t_id :: nat
  t_user :: nat
  t_hash :: string
  t_created :: string
  t_expires :: "string option"

record invite_row =
  i_code :: string
  i_by :: "nat option"
  i_used :: "nat option"
  i_created :: string
  i_used_at :: "string option"

record session_row =
  s_id :: string
  s_creator :: "nat option"
  s_joiner :: "nat option"
  s_created :: string
  s_bytes :: nat

record member_row =
  m_id :: nat
  m_name :: string
  m_pubkey :: string
  m_hash :: string
  m_role :: string
  m_joined :: string

record message_row =
  g_id :: nat
  g_sender :: string
  g_data :: string
  g_ts :: int

text \<open>The \<open>_seq\<close> fields are the engine's \<open>AUTOINCREMENT\<close> counters: an id is never reused.\<close>

record db =
  users :: "user_row list"
  user_seq :: nat
  presence :: "presence_row list"
  tokens :: "token_row list"
  token_seq :: nat
  invites :: "invite_row list"
  sessions :: "session_row list"
  members :: "member_row list"
  member_seq :: nat
  messages :: "message_row list"
  message_seq :: nat
  gconfig :: "(string \<times> string) list"

definition empty_db :: db where
  "empty_db = \<lparr>users = [], user_seq = 0, presence = [], tokens = [], token_seq = 0, invites = [],
     sessions = [], members = [], member_seq = 0, messages = [], message_seq = 0, gconfig = []\<rparr>"

type_synonym 'a stmt = "db \<Rightarrow> (sqlx_error + 'a) \<times> db"

text \<open>A query; \<open>fetch_optional\<close> is the first row, \<open>fetch_one\<close> fails without one.\<close>

definition query :: "(db \<Rightarrow> 'a) \<Rightarrow> 'a stmt" where
  "query f d = (Inr (f d), d)"

definition user_ids :: "db \<Rightarrow> nat set" where
  "user_ids d = u_id ` set (users d)"

section \<open>The schema as an invariant\<close>

definition users_ok :: "db \<Rightarrow> bool" where
  "users_ok d \<longleftrightarrow> distinct (map u_id (users d)) \<and> (\<forall>u \<in> set (users d). u_id u \<le> user_seq d) \<and>
     distinct (map u_name (users d)) \<and> distinct (map u_lc (users d))"

definition presence_ok :: "db \<Rightarrow> bool" where
  "presence_ok d \<longleftrightarrow> distinct (map p_user (presence d)) \<and> p_user ` set (presence d) \<subseteq> user_ids d"

definition tokens_ok :: "db \<Rightarrow> bool" where
  "tokens_ok d \<longleftrightarrow> distinct (map t_id (tokens d)) \<and> (\<forall>t \<in> set (tokens d). t_id t \<le> token_seq d) \<and>
     distinct (map t_hash (tokens d)) \<and> t_user ` set (tokens d) \<subseteq> user_ids d"

definition invites_ok :: "db \<Rightarrow> bool" where
  "invites_ok d \<longleftrightarrow> distinct (map i_code (invites d)) \<and>
     (\<forall>i \<in> set (invites d). set_option (i_by i) \<union> set_option (i_used i) \<subseteq> user_ids d)"

definition sessions_ok :: "db \<Rightarrow> bool" where
  "sessions_ok d \<longleftrightarrow> distinct (map s_id (sessions d)) \<and>
     (\<forall>s \<in> set (sessions d). set_option (s_creator s) \<union> set_option (s_joiner s) \<subseteq> user_ids d)"

definition members_ok :: "db \<Rightarrow> bool" where
  "members_ok d \<longleftrightarrow> distinct (map m_id (members d)) \<and> (\<forall>m \<in> set (members d). m_id m \<le> member_seq d) \<and>
     distinct (map m_name (members d)) \<and> distinct (map m_hash (members d))"

definition messages_ok :: "db \<Rightarrow> bool" where
  "messages_ok d \<longleftrightarrow> sorted_wrt (<) (map g_id (messages d)) \<and> (\<forall>m \<in> set (messages d). g_id m \<le> message_seq d)"

definition gconfig_ok :: "db \<Rightarrow> bool" where
  "gconfig_ok d \<longleftrightarrow> distinct (map fst (gconfig d))"

definition db_ok :: "db \<Rightarrow> bool" where
  "db_ok d \<longleftrightarrow> users_ok d \<and> presence_ok d \<and> tokens_ok d \<and> invites_ok d \<and> sessions_ok d \<and>
     members_ok d \<and> messages_ok d \<and> gconfig_ok d"

lemmas table_ok_defs = users_ok_def presence_ok_def tokens_ok_def invites_ok_def sessions_ok_def
  members_ok_def messages_ok_def gconfig_ok_def

lemma db_ok_empty: "db_ok empty_db"
  by (simp add: db_ok_def table_ok_defs empty_db_def)

lemma db_ok_query [db_rules]: "db_ok d \<Longrightarrow> db_ok (snd (query f d))"
  by (simp add: query_def)

text \<open>A row looked up by a column with distinct values is the one row with that value.\<close>

locale unique_column =
  fixes ok :: "db \<Rightarrow> bool" and rows :: "db \<Rightarrow> 'r list" and col :: "'r \<Rightarrow> 'k"
  assumes uniq: "ok d \<Longrightarrow> distinct (map col (rows d))"
begin

lemma find_row: "ok d \<Longrightarrow> r \<in> set (rows d) \<Longrightarrow> List.find (\<lambda>x. col x = col r) (rows d) = Some r"
  using find_key [of col "rows d" r] uniq [of d] by simp

lemma find_iff: "ok d \<Longrightarrow> List.find (\<lambda>x. col x = k) (rows d) = Some r \<longleftrightarrow> r \<in> set (rows d) \<and> col r = k"
  using find_row [of d r] find_SomeD [of "\<lambda>x. col x = k" "rows d" r] by auto

lemma find_row_if:
  assumes "ok d" "r \<in> set (rows d)"
  shows "List.find (\<lambda>x. col x = col r \<and> P x) (rows d) = (if P r then Some r else None)"
proof -
  have same: "x = r" if "x \<in> set (rows d)" "col x = col r" for x
    using uniq [OF assms(1)] assms(2) that by (meson distinct_map inj_onD)
  show ?thesis
  proof (cases "P r")
    case True
    then obtain x where x: "List.find (\<lambda>x. col x = col r \<and> P x) (rows d) = Some x"
      using assms(2) find_NoneD by fastforce
    then have "x = r" using find_SomeD [OF x] same by simp
    then show ?thesis using x True by simp
  next
    case False
    then show ?thesis using same by (auto simp: find_None_iff)
  qed
qed

lemma same_key: "ok d \<Longrightarrow> r \<in> set (rows d) \<Longrightarrow> r' \<in> set (rows d) \<Longrightarrow> col r = col r' \<Longrightarrow> r = r'"
  using uniq by (meson distinct_map inj_onD)

end

interpretation user_lc: unique_column db_ok users u_lc
  by unfold_locales (simp add: db_ok_def users_ok_def)

interpretation user_id: unique_column db_ok users u_id
  by unfold_locales (simp add: db_ok_def users_ok_def)

interpretation presence_user: unique_column db_ok presence p_user
  by unfold_locales (simp add: db_ok_def presence_ok_def)

interpretation token_hash: unique_column db_ok tokens t_hash
  by unfold_locales (simp add: db_ok_def tokens_ok_def)

interpretation token_id: unique_column db_ok tokens t_id
  by unfold_locales (simp add: db_ok_def tokens_ok_def)

interpretation invite_key: unique_column db_ok invites i_code
  by unfold_locales (simp add: db_ok_def invites_ok_def)

interpretation session_key: unique_column db_ok sessions s_id
  by unfold_locales (simp add: db_ok_def sessions_ok_def)

interpretation member_hash: unique_column db_ok members m_hash
  by unfold_locales (simp add: db_ok_def members_ok_def)

interpretation member_name: unique_column db_ok members m_name
  by unfold_locales (simp add: db_ok_def members_ok_def)

section \<open>Migrating twice\<close>

text \<open>What a statement of \<open>migrate\<close> establishes.\<close>

fun settled :: "ddl \<Rightarrow> schema \<Rightarrow> bool" where
  "settled (CreateTableIfNotExists t cols) sc = (map_of sc t \<noteq> None)"
| "settled (AddColumn t col) sc = (\<exists>cols. map_of sc t = Some cols \<and> fst col \<in> fst ` set cols)"

definition extends :: "schema \<Rightarrow> schema \<Rightarrow> bool" where
  "extends sc sc' \<longleftrightarrow> (\<forall>t cols. map_of sc t = Some cols \<longrightarrow> (\<exists>more. map_of sc' t = Some (cols @ more)))"

lemma extends_refl: "extends sc sc"
  by (simp add: extends_def)

lemma extends_trans: "extends a b \<Longrightarrow> extends b c \<Longrightarrow> extends a c"
  unfolding extends_def by (metis append_assoc)

lemma extends_exec: "exec_ddl d sc = Inr sc' \<Longrightarrow> extends sc sc'"
  by (cases d) (auto simp: extends_def map_of_map_entry map_add_def split: if_splits option.splits)

lemma settled_extends: "settled d sc \<Longrightarrow> extends sc sc' \<Longrightarrow> settled d sc'"
  by (cases d) (fastforce simp: extends_def)+

lemma settled_exec: "exec_ddl d sc = Inr sc' \<Longrightarrow> settled d sc'"
  by (cases d) (auto simp: map_of_map_entry map_add_def split: if_splits option.splits)

text \<open>Only columns of tables created before are added, and only their errors are ignored.\<close>

fun well_ordered :: "(ddl \<times> bool) list \<Rightarrow> string set \<Rightarrow> bool" where
  "well_ordered [] T = True"
| "well_ordered ((CreateTableIfNotExists t cols, ignore) # ds) T = well_ordered ds (insert t T)"
| "well_ordered ((AddColumn t col, ignore) # ds) T = (t \<in> T \<and> ignore \<and> well_ordered ds T)"

lemma migrate_steps_ordered: "well_ordered (migrate_steps m) {}"
  by (simp add: migrate_steps_def users_table_def presence_table_def tokens_table_def invites_table_def
      relay_sessions_table_def group_members_table_def group_messages_table_def group_config_table_def)

lemma migrate_run_settles:
  assumes "well_ordered ds T" "\<forall>t \<in> T. map_of sc t \<noteq> None"
  shows "\<exists>sc'. migrate_run ds sc = Inr sc' \<and> extends sc sc' \<and> (\<forall>d \<in> fst ` set ds. settled d sc')"
  using assms
proof (induction ds T arbitrary: sc rule: well_ordered.induct)
  case (1 T)
  then show ?case by (simp add: extends_refl)
next
  case (2 t cols ignore ds T)
  obtain sc1 where 1: "exec_ddl (CreateTableIfNotExists t cols) sc = Inr sc1" by (cases "map_of sc t") auto
  note e = extends_exec [OF 1] settled_exec [OF 1]
  have "\<forall>x \<in> insert t T. map_of sc1 x \<noteq> None"
    using 2(3) e by (fastforce simp: extends_def)
  with 2(1) [of sc1] 2(2) obtain sc' where "migrate_run ds sc1 = Inr sc'" "extends sc1 sc'" "\<forall>d \<in> fst ` set ds. settled d sc'"
    by (simp only: well_ordered.simps) blast
  with 1 e show ?case by (auto simp del: exec_ddl.simps settled.simps intro: extends_trans settled_extends)
next
  case (3 t col ignore ds T)
  show ?case
  proof (cases "exec_ddl (AddColumn t col) sc")
    case (Inl err)
    then have "settled (AddColumn t col) sc" using 3 by (auto split: option.splits if_splits)
    moreover obtain sc' where "migrate_run ds sc = Inr sc'" "extends sc sc'" "\<forall>d \<in> fst ` set ds. settled d sc'"
      using 3(1) [of sc] 3(2,3) by (simp only: well_ordered.simps) blast
    moreover have ignore using 3(2) by simp
    ultimately show ?thesis using Inl
      by (auto simp del: exec_ddl.simps settled.simps intro: settled_extends)
  next
    case (Inr sc1)
    note e = extends_exec [OF Inr] settled_exec [OF Inr]
    have "\<forall>x \<in> T. map_of sc1 x \<noteq> None" using 3(3) e by (fastforce simp: extends_def)
    with 3(1) [of sc1] 3(2) obtain sc' where "migrate_run ds sc1 = Inr sc'" "extends sc1 sc'" "\<forall>d \<in> fst ` set ds. settled d sc'"
      by (simp only: well_ordered.simps) blast
    with Inr e show ?thesis by (auto simp del: exec_ddl.simps settled.simps intro: extends_trans settled_extends)
  qed
qed

lemma exec_settled:
  "settled (CreateTableIfNotExists t cols) sc \<Longrightarrow> exec_ddl (CreateTableIfNotExists t cols) sc = Inr sc"
  "settled (AddColumn t col) sc \<Longrightarrow> exec_ddl (AddColumn t col) sc = Inl Engine"
  by simp (simp, elim exE conjE, simp)

lemma migrate_run_settled:
  "well_ordered ds T \<Longrightarrow> \<forall>d \<in> fst ` set ds. settled d sc \<Longrightarrow> migrate_run ds sc = Inr sc"
  by (induction ds T rule: well_ordered.induct) (simp_all add: exec_settled del: settled.simps exec_ddl.simps)



end
