(* ===== verification/Sql.thy ===== *)
theory Sql
  imports Db
begin

text \<open>
  The SQL statements of \<open>src/discovery.rs\<close>, \<open>src/relay.rs\<close> and \<open>src/group.rs\<close>, and the lemmas that
  each of them keeps \<open>db_ok\<close>. The last argument before the database is the engine's
  \<open>datetime('now')\<close> where the statement uses it. Where the text of a statement leaves the order of
  rows open, the scan order of the table is taken; no theorem about the result depends on it unless
  it says so.
\<close>

section \<open>LIKE\<close>

text \<open>
  \<open>x LIKE pattern\<close> without \<open>ESCAPE\<close>: \<open>%\<close> stands for any text, \<open>_\<close> for one character, and ASCII
  letters match regardless of case. \<open>next_char\<close> skips one UTF-8 character.
\<close>

definition next_char :: "string \<Rightarrow> string" where
  "next_char s = dropWhile (\<lambda>c. 128 \<le> (of_char c :: nat) \<and> (of_char c :: nat) < 192) (tl s)"

lemma length_next_char: "s \<noteq> [] \<Longrightarrow> length (next_char s) < length s"
  by (cases s) (auto simp: next_char_def less_Suc_eq_le length_dropWhile_le)

function sql_like :: "string \<Rightarrow> string \<Rightarrow> bool" where
  "sql_like [] s = (s = [])"
| "sql_like (p # ps) s =
     (if p = CHR ''%'' then sql_like ps s \<or> (if s = [] then False else sql_like (p # ps) (next_char s))
      else if s = [] then False
      else if p = CHR ''_'' then sql_like ps (next_char s)
      else ascii_lower p = ascii_lower (hd s) \<and> sql_like ps (tl s))"
  by pat_completeness auto
termination
  by (relation "measure (\<lambda>(p, s). length p + length s)") (auto simp: length_next_char less_SucI)

declare sql_like.simps(2) [simp del]

section \<open>Discovery\<close>

definition count_users :: "nat stmt" where
  "count_users = query (\<lambda>d. length (users d))"

definition count_online :: "string option \<Rightarrow> nat stmt" where
  "count_online cutoff =
     query (\<lambda>d. length (filter (\<lambda>p. case cutoff of None \<Rightarrow> False | Some c \<Rightarrow> c < p_seen p) (presence d)))"

definition select_open_invite :: "string \<Rightarrow> string option stmt" where
  "select_open_invite code =
     query (\<lambda>d. map_option i_code (List.find (\<lambda>i. i_code i = code \<and> i_used i = None) (invites d)))"

definition select_user_by_lc :: "string \<Rightarrow> nat option stmt" where
  "select_user_by_lc lc = query (\<lambda>d. map_option u_id (List.find (\<lambda>u. u_lc u = lc) (users d)))"

definition insert_user :: "string \<Rightarrow> string \<Rightarrow> string \<Rightarrow> string option \<Rightarrow> string \<Rightarrow> nat stmt" where
  "insert_user name lc pubkey email now d =
     (if name \<in> u_name ` set (users d) then (Inl (Constraint ''users.username''), d)
      else if lc \<in> u_lc ` set (users d) then (Inl (Constraint ''users.username_lc''), d)
      else let i = Suc (user_seq d)
           in (Inr i, d\<lparr>users := users d @ [\<lparr>u_id = i, u_name = name, u_lc = lc, u_pubkey = pubkey,
                 u_email = email, u_created = now\<rparr>], user_seq := i\<rparr>))"

definition insert_presence :: "nat \<Rightarrow> string \<Rightarrow> nat \<Rightarrow> string \<Rightarrow> unit stmt" where
  "insert_presence uid ip port now d =
     (if uid \<in> p_user ` set (presence d) then (Inl (Constraint ''presence.user_id''), d)
      else if uid \<notin> user_ids d then (Inl (Constraint ''FOREIGN KEY''), d)
      else (Inr (), d\<lparr>presence := insort_key p_user
              \<lparr>p_user = uid, p_ip = ip, p_port = port, p_seen = now\<rparr> (presence d)\<rparr>))"

definition insert_token :: "nat \<Rightarrow> string \<Rightarrow> string option \<Rightarrow> string \<Rightarrow> unit stmt" where
  "insert_token uid hash expires now d =
     (if hash \<in> t_hash ` set (tokens d) then (Inl (Constraint ''tokens.token_hash''), d)
      else if uid \<notin> user_ids d then (Inl (Constraint ''FOREIGN KEY''), d)
      else let i = Suc (token_seq d)
           in (Inr (), d\<lparr>tokens := tokens d @ [\<lparr>t_id = i, t_user = uid, t_hash = hash,
                 t_created = now, t_expires = expires\<rparr>], token_seq := i\<rparr>))"

definition use_invite :: "nat \<Rightarrow> string \<Rightarrow> string \<Rightarrow> unit stmt" where
  "use_invite uid code now d =
     (if uid \<notin> user_ids d \<and> code \<in> i_code ` set (invites d) then (Inl (Constraint ''FOREIGN KEY''), d)
      else (Inr (), d\<lparr>invites := map (\<lambda>i. if i_code i = code
              then i\<lparr>i_used := Some uid, i_used_at := Some now\<rparr> else i) (invites d)\<rparr>))"

definition select_lookup :: "string \<Rightarrow> (string \<times> string \<times> nat \<times> string \<times> string) option stmt" where
  "select_lookup lc = query (\<lambda>d.
     case List.find (\<lambda>u. u_lc u = lc) (users d) of
       None \<Rightarrow> None
     | Some u \<Rightarrow> map_option (\<lambda>p. (u_pubkey u, p_ip p, p_port p, p_seen p, u_name u))
                  (List.find (\<lambda>p. p_user p = u_id u) (presence d)))"

text \<open>
  \<open>SELECT last_seen > datetime('now', ...) FROM presence WHERE ip=?\<close> under \<open>fetch_one\<close>: the first
  row with the address; a cutoff the engine cannot represent is \<open>NULL\<close>, which does not decode.
\<close>

definition select_online_by_ip :: "string option \<Rightarrow> string \<Rightarrow> bool stmt" where
  "select_online_by_ip cutoff ip d =
     (case List.find (\<lambda>p. p_ip p = ip) (presence d) of
        None \<Rightarrow> (Inl RowNotFound, d)
      | Some p \<Rightarrow> (case cutoff of None \<Rightarrow> (Inl Engine, d) | Some c \<Rightarrow> (Inr (c < p_seen p), d)))"

text \<open>The engine refuses a \<open>LIKE\<close> pattern of more than 50000 bytes.\<close>

definition search_users :: "string \<Rightarrow> string list stmt" where
  "search_users pattern d =
     (if 50000 < length pattern then (Inl Engine, d)
      else (Inr (map u_name (take 20 (filter (\<lambda>u. sql_like pattern (u_lc u)) (users d)))), d))"

definition upsert_presence :: "nat \<Rightarrow> string \<Rightarrow> nat \<Rightarrow> string \<Rightarrow> unit stmt" where
  "upsert_presence uid ip port now d =
     (if uid \<in> p_user ` set (presence d)
      then (Inr (), d\<lparr>presence := map (\<lambda>p. if p_user p = uid
              then p\<lparr>p_ip := ip, p_port := port, p_seen := now\<rparr> else p) (presence d)\<rparr>)
      else insert_presence uid ip port now d)"

definition touch_presence :: "nat \<Rightarrow> string \<Rightarrow> unit stmt" where
  "touch_presence uid now d =
     (Inr (), d\<lparr>presence := map (\<lambda>p. if p_user p = uid then p\<lparr>p_seen := now\<rparr> else p) (presence d)\<rparr>)"

text \<open>\<open>DELETE FROM users\<close> with its \<open>ON DELETE CASCADE\<close> and \<open>ON DELETE SET NULL\<close> actions.\<close>

definition clear_ref :: "nat \<Rightarrow> nat option \<Rightarrow> nat option" where
  "clear_ref uid r = (if r = Some uid then None else r)"

definition delete_user :: "nat \<Rightarrow> unit stmt" where
  "delete_user uid d =
     (Inr (), d\<lparr>users := filter (\<lambda>u. u_id u \<noteq> uid) (users d),
        presence := filter (\<lambda>p. p_user p \<noteq> uid) (presence d),
        tokens := filter (\<lambda>t. t_user t \<noteq> uid) (tokens d),
        invites := map (\<lambda>i. i\<lparr>i_by := clear_ref uid (i_by i), i_used := clear_ref uid (i_used i)\<rparr>) (invites d),
        sessions := map (\<lambda>s. s\<lparr>s_creator := clear_ref uid (s_creator s),
                               s_joiner := clear_ref uid (s_joiner s)\<rparr>) (sessions d)\<rparr>)"

definition count_tokens :: "nat \<Rightarrow> nat stmt" where
  "count_tokens uid = query (\<lambda>d. length (filter (\<lambda>t. t_user t = uid) (tokens d)))"

definition oldest_token :: "nat \<Rightarrow> db \<Rightarrow> nat option" where
  "oldest_token uid d =
     (case sort_key t_created (filter (\<lambda>t. t_user t = uid) (tokens d)) of
        [] \<Rightarrow> None | t # _ \<Rightarrow> Some (t_id t))"

definition delete_oldest_token :: "nat \<Rightarrow> unit stmt" where
  "delete_oldest_token uid d =
     (Inr (), d\<lparr>tokens := filter (\<lambda>t. Some (t_id t) \<noteq> oldest_token uid d) (tokens d)\<rparr>)"

definition insert_invite :: "string \<Rightarrow> nat \<Rightarrow> string \<Rightarrow> unit stmt" where
  "insert_invite code uid now d =
     (if code \<in> i_code ` set (invites d) then (Inl (Constraint ''invites.code''), d)
      else if uid \<notin> user_ids d then (Inl (Constraint ''FOREIGN KEY''), d)
      else (Inr (), d\<lparr>invites := invites d @ [\<lparr>i_code = code, i_by = Some uid, i_used = None,
              i_created = now, i_used_at = None\<rparr>]\<rparr>))"

definition token_live :: "string \<Rightarrow> token_row \<Rightarrow> bool" where
  "token_live now t = (case t_expires t of None \<Rightarrow> True | Some e \<Rightarrow> now < e)"

definition select_token :: "string \<Rightarrow> string \<Rightarrow> nat option stmt" where
  "select_token hash now =
     query (\<lambda>d. map_option t_user (List.find (\<lambda>t. t_hash t = hash \<and> token_live now t) (tokens d)))"

section \<open>Relay\<close>

definition insert_session :: "string \<Rightarrow> nat \<Rightarrow> string \<Rightarrow> unit stmt" where
  "insert_session sid uid now d =
     (if sid \<in> s_id ` set (sessions d) then (Inl (Constraint ''relay_sessions.id''), d)
      else if uid \<notin> user_ids d then (Inl (Constraint ''FOREIGN KEY''), d)
      else (Inr (), d\<lparr>sessions := sessions d @ [\<lparr>s_id = sid, s_creator = Some uid, s_joiner = None,
              s_created = now, s_bytes = 0\<rparr>]\<rparr>))"

definition set_joiner :: "nat \<Rightarrow> string \<Rightarrow> unit stmt" where
  "set_joiner uid sid d =
     (if uid \<notin> user_ids d \<and> sid \<in> s_id ` set (sessions d) then (Inl (Constraint ''FOREIGN KEY''), d)
      else (Inr (), d\<lparr>sessions := map (\<lambda>s. if s_id s = sid then s\<lparr>s_joiner := Some uid\<rparr> else s) (sessions d)\<rparr>))"

section \<open>Group\<close>

definition select_member :: "string \<Rightarrow> (string \<times> string) option stmt" where
  "select_member hash =
     query (\<lambda>d. map_option (\<lambda>m. (m_name m, m_role m)) (List.find (\<lambda>m. m_hash m = hash) (members d)))"

definition select_config :: "string \<Rightarrow> string option stmt" where
  "select_config k = query (\<lambda>d. map_of (gconfig d) k)"

definition insert_config :: "string \<Rightarrow> string \<Rightarrow> unit stmt" where
  "insert_config k v d =
     (if k \<in> fst ` set (gconfig d) then (Inl (Constraint ''group_config.key''), d)
      else (Inr (), d\<lparr>gconfig := gconfig d @ [(k, v)]\<rparr>))"

definition count_members :: "nat stmt" where
  "count_members = query (\<lambda>d. length (members d))"

definition upsert_member :: "string \<Rightarrow> string \<Rightarrow> string \<Rightarrow> string \<Rightarrow> string \<Rightarrow> unit stmt" where
  "upsert_member name pubkey hash role now d =
     (if \<exists>m \<in> set (members d). m_hash m = hash \<and> m_name m \<noteq> name
      then (Inl (Constraint ''group_members.token_hash''), d)
      else if name \<in> m_name ` set (members d)
      then (Inr (), d\<lparr>members := map (\<lambda>m. if m_name m = name
              then m\<lparr>m_pubkey := pubkey, m_hash := hash\<rparr> else m) (members d)\<rparr>)
      else let i = Suc (member_seq d)
           in (Inr (), d\<lparr>members := members d @ [\<lparr>m_id = i, m_name = name, m_pubkey = pubkey,
                 m_hash = hash, m_role = role, m_joined = now\<rparr>], member_seq := i\<rparr>))"

definition delete_member :: "string \<Rightarrow> unit stmt" where
  "delete_member name d = (Inr (), d\<lparr>members := filter (\<lambda>m. m_name m \<noteq> name) (members d)\<rparr>)"

definition list_members :: "(string \<times> string \<times> string) list stmt" where
  "list_members = query (\<lambda>d. map (\<lambda>m. (m_name m, m_role m, m_joined m)) (sort_key m_name (members d)))"

text \<open>\<open>ORDER BY id DESC LIMIT ?\<close>.\<close>

definition newest :: "nat \<Rightarrow> db \<Rightarrow> message_row list" where
  "newest limit d = take limit (rev (sort_key g_id (messages d)))"

definition select_history :: "nat \<Rightarrow> (string \<times> string \<times> int) list stmt" where
  "select_history limit = query (\<lambda>d. map (\<lambda>m. (g_sender m, g_data m, g_ts m)) (newest limit d))"

definition insert_message :: "string \<Rightarrow> string \<Rightarrow> int \<Rightarrow> unit stmt" where
  "insert_message sender data ts d =
     (let i = Suc (message_seq d)
      in (Inr (), d\<lparr>messages := messages d @ [\<lparr>g_id = i, g_sender = sender, g_data = data, g_ts = ts\<rparr>],
            message_seq := i\<rparr>))"

definition prune_messages :: "nat \<Rightarrow> unit stmt" where
  "prune_messages limit d =
     (Inr (), d\<lparr>messages := filter (\<lambda>m. g_id m \<in> g_id ` set (newest limit d)) (messages d)\<rparr>)"

section \<open>Every statement keeps the schema\<close>

lemma db_ok_count_users [db_rules]: "db_ok d \<Longrightarrow> db_ok (snd (count_users d))"
  by (simp add: count_users_def db_rules)

lemma db_ok_count_online [db_rules]: "db_ok d \<Longrightarrow> db_ok (snd (count_online c d))"
  by (simp add: count_online_def db_rules)

lemma db_ok_select_open_invite [db_rules]: "db_ok d \<Longrightarrow> db_ok (snd (select_open_invite c d))"
  by (simp add: select_open_invite_def db_rules)

lemma db_ok_select_user_by_lc [db_rules]: "db_ok d \<Longrightarrow> db_ok (snd (select_user_by_lc c d))"
  by (simp add: select_user_by_lc_def db_rules)

lemma fresh_id: "\<forall>x \<in> set xs. f x \<le> (n :: nat) \<Longrightarrow> Suc n \<notin> f ` set xs"
  by auto

lemma map_key: "(\<And>x. k (f x) = k x) \<Longrightarrow> map (k \<circ> f) xs = map k xs"
  by simp

lemma distinct_insort_by: "distinct (map k (insort_key k x xs)) \<longleftrightarrow> k x \<notin> k ` set xs \<and> distinct (map k xs)"
  by (induction xs) (auto simp: set_insort_key)

text \<open>A table is untouched by updates of the others.\<close>

lemma frame_users [simp]:
  "users_ok (d\<lparr>presence := ps\<rparr>) = users_ok d" "users_ok (d\<lparr>tokens := ts\<rparr>) = users_ok d"
  "users_ok (d\<lparr>token_seq := n\<rparr>) = users_ok d" "users_ok (d\<lparr>invites := iv\<rparr>) = users_ok d"
  "users_ok (d\<lparr>sessions := ss\<rparr>) = users_ok d" "users_ok (d\<lparr>members := ms\<rparr>) = users_ok d"
  "users_ok (d\<lparr>member_seq := n\<rparr>) = users_ok d" "users_ok (d\<lparr>messages := gs\<rparr>) = users_ok d"
  "users_ok (d\<lparr>message_seq := n\<rparr>) = users_ok d" "users_ok (d\<lparr>gconfig := kv\<rparr>) = users_ok d"
  by (simp_all add: users_ok_def)

lemma frame_presence [simp]:
  "presence_ok (d\<lparr>user_seq := n\<rparr>) = presence_ok d"
  "presence_ok (d\<lparr>tokens := ts\<rparr>) = presence_ok d"
  "presence_ok (d\<lparr>token_seq := n\<rparr>) = presence_ok d"
  "presence_ok (d\<lparr>invites := iv\<rparr>) = presence_ok d"
  "presence_ok (d\<lparr>sessions := ss\<rparr>) = presence_ok d"
  "presence_ok (d\<lparr>members := ms\<rparr>) = presence_ok d"
  "presence_ok (d\<lparr>member_seq := n\<rparr>) = presence_ok d"
  "presence_ok (d\<lparr>messages := gs\<rparr>) = presence_ok d"
  "presence_ok (d\<lparr>message_seq := n\<rparr>) = presence_ok d"
  "presence_ok (d\<lparr>gconfig := kv\<rparr>) = presence_ok d"
  by (simp_all add: presence_ok_def user_ids_def)

lemma frame_tokens [simp]:
  "tokens_ok (d\<lparr>user_seq := n\<rparr>) = tokens_ok d"
  "tokens_ok (d\<lparr>presence := ps\<rparr>) = tokens_ok d" "tokens_ok (d\<lparr>invites := iv\<rparr>) = tokens_ok d"
  "tokens_ok (d\<lparr>sessions := ss\<rparr>) = tokens_ok d" "tokens_ok (d\<lparr>members := ms\<rparr>) = tokens_ok d"
  "tokens_ok (d\<lparr>member_seq := n\<rparr>) = tokens_ok d"
  "tokens_ok (d\<lparr>messages := gs\<rparr>) = tokens_ok d"
  "tokens_ok (d\<lparr>message_seq := n\<rparr>) = tokens_ok d"
  "tokens_ok (d\<lparr>gconfig := kv\<rparr>) = tokens_ok d"
  by (simp_all add: tokens_ok_def user_ids_def)

lemma frame_invites [simp]:
  "invites_ok (d\<lparr>user_seq := n\<rparr>) = invites_ok d"
  "invites_ok (d\<lparr>presence := ps\<rparr>) = invites_ok d"
  "invites_ok (d\<lparr>tokens := ts\<rparr>) = invites_ok d"
  "invites_ok (d\<lparr>token_seq := n\<rparr>) = invites_ok d"
  "invites_ok (d\<lparr>sessions := ss\<rparr>) = invites_ok d"
  "invites_ok (d\<lparr>members := ms\<rparr>) = invites_ok d"
  "invites_ok (d\<lparr>member_seq := n\<rparr>) = invites_ok d"
  "invites_ok (d\<lparr>messages := gs\<rparr>) = invites_ok d"
  "invites_ok (d\<lparr>message_seq := n\<rparr>) = invites_ok d"
  "invites_ok (d\<lparr>gconfig := kv\<rparr>) = invites_ok d"
  by (simp_all add: invites_ok_def user_ids_def)

lemma frame_sessions [simp]:
  "sessions_ok (d\<lparr>user_seq := n\<rparr>) = sessions_ok d"
  "sessions_ok (d\<lparr>presence := ps\<rparr>) = sessions_ok d"
  "sessions_ok (d\<lparr>tokens := ts\<rparr>) = sessions_ok d"
  "sessions_ok (d\<lparr>token_seq := n\<rparr>) = sessions_ok d"
  "sessions_ok (d\<lparr>invites := iv\<rparr>) = sessions_ok d"
  "sessions_ok (d\<lparr>members := ms\<rparr>) = sessions_ok d"
  "sessions_ok (d\<lparr>member_seq := n\<rparr>) = sessions_ok d"
  "sessions_ok (d\<lparr>messages := gs\<rparr>) = sessions_ok d"
  "sessions_ok (d\<lparr>message_seq := n\<rparr>) = sessions_ok d"
  "sessions_ok (d\<lparr>gconfig := kv\<rparr>) = sessions_ok d"
  by (simp_all add: sessions_ok_def user_ids_def)

lemma frame_members [simp]:
  "members_ok (d\<lparr>users := us\<rparr>) = members_ok d"
  "members_ok (d\<lparr>user_seq := n\<rparr>) = members_ok d"
  "members_ok (d\<lparr>presence := ps\<rparr>) = members_ok d"
  "members_ok (d\<lparr>tokens := ts\<rparr>) = members_ok d"
  "members_ok (d\<lparr>token_seq := n\<rparr>) = members_ok d"
  "members_ok (d\<lparr>invites := iv\<rparr>) = members_ok d"
  "members_ok (d\<lparr>sessions := ss\<rparr>) = members_ok d"
  "members_ok (d\<lparr>messages := gs\<rparr>) = members_ok d"
  "members_ok (d\<lparr>message_seq := n\<rparr>) = members_ok d"
  "members_ok (d\<lparr>gconfig := kv\<rparr>) = members_ok d"
  by (simp_all add: members_ok_def)

lemma frame_messages [simp]:
  "messages_ok (d\<lparr>users := us\<rparr>) = messages_ok d"
  "messages_ok (d\<lparr>user_seq := n\<rparr>) = messages_ok d"
  "messages_ok (d\<lparr>presence := ps\<rparr>) = messages_ok d"
  "messages_ok (d\<lparr>tokens := ts\<rparr>) = messages_ok d"
  "messages_ok (d\<lparr>token_seq := n\<rparr>) = messages_ok d"
  "messages_ok (d\<lparr>invites := iv\<rparr>) = messages_ok d"
  "messages_ok (d\<lparr>sessions := ss\<rparr>) = messages_ok d"
  "messages_ok (d\<lparr>members := ms\<rparr>) = messages_ok d"
  "messages_ok (d\<lparr>member_seq := n\<rparr>) = messages_ok d"
  "messages_ok (d\<lparr>gconfig := kv\<rparr>) = messages_ok d"
  by (simp_all add: messages_ok_def)

lemma frame_gconfig [simp]:
  "gconfig_ok (d\<lparr>users := us\<rparr>) = gconfig_ok d"
  "gconfig_ok (d\<lparr>user_seq := n\<rparr>) = gconfig_ok d"
  "gconfig_ok (d\<lparr>presence := ps\<rparr>) = gconfig_ok d"
  "gconfig_ok (d\<lparr>tokens := ts\<rparr>) = gconfig_ok d"
  "gconfig_ok (d\<lparr>token_seq := n\<rparr>) = gconfig_ok d"
  "gconfig_ok (d\<lparr>invites := iv\<rparr>) = gconfig_ok d"
  "gconfig_ok (d\<lparr>sessions := ss\<rparr>) = gconfig_ok d"
  "gconfig_ok (d\<lparr>members := ms\<rparr>) = gconfig_ok d"
  "gconfig_ok (d\<lparr>member_seq := n\<rparr>) = gconfig_ok d"
  "gconfig_ok (d\<lparr>messages := gs\<rparr>) = gconfig_ok d"
  "gconfig_ok (d\<lparr>message_seq := n\<rparr>) = gconfig_ok d"
  by (simp_all add: gconfig_ok_def)


lemma user_ids_frame [simp]:
  "user_ids (d\<lparr>presence := ps\<rparr>) = user_ids d" "user_ids (d\<lparr>tokens := ts\<rparr>) = user_ids d"
  "user_ids (d\<lparr>token_seq := n\<rparr>) = user_ids d" "user_ids (d\<lparr>invites := iv\<rparr>) = user_ids d"
  "user_ids (d\<lparr>sessions := ss\<rparr>) = user_ids d" "user_ids (d\<lparr>user_seq := n\<rparr>) = user_ids d"
  by (simp_all add: user_ids_def)

text \<open>More users never break a reference.\<close>

lemma refs_mono:
  assumes "u_id ` set (users d) \<subseteq> u_id ` set us"
  shows "presence_ok d \<Longrightarrow> presence_ok (d\<lparr>users := us\<rparr>)"
    and "tokens_ok d \<Longrightarrow> tokens_ok (d\<lparr>users := us\<rparr>)"
    and "invites_ok d \<Longrightarrow> invites_ok (d\<lparr>users := us\<rparr>)"
    and "sessions_ok d \<Longrightarrow> sessions_ok (d\<lparr>users := us\<rparr>)"
proof -
  have "user_ids d \<subseteq> user_ids (d\<lparr>users := us\<rparr>)" using assms by (simp add: user_ids_def)
  then show "presence_ok d \<Longrightarrow> presence_ok (d\<lparr>users := us\<rparr>)"
    and "tokens_ok d \<Longrightarrow> tokens_ok (d\<lparr>users := us\<rparr>)"
    and "invites_ok d \<Longrightarrow> invites_ok (d\<lparr>users := us\<rparr>)"
    and "sessions_ok d \<Longrightarrow> sessions_ok (d\<lparr>users := us\<rparr>)"
    unfolding presence_ok_def tokens_ok_def invites_ok_def sessions_ok_def by (simp; blast)+
qed

lemma db_ok_insert_user [db_rules]: "db_ok d \<Longrightarrow> db_ok (snd (insert_user n l p e t d))"
  by (auto simp: db_ok_def insert_user_def Let_def users_ok_def fresh_id intro: refs_mono)

lemma db_ok_insert_presence [db_rules]: "db_ok d \<Longrightarrow> db_ok (snd (insert_presence u i p t d))"
  by (auto simp: db_ok_def insert_presence_def presence_ok_def set_insort_key distinct_insort_by)

lemma db_ok_insert_token [db_rules]: "db_ok d \<Longrightarrow> db_ok (snd (insert_token u h e t d))"
  by (auto simp: db_ok_def insert_token_def Let_def tokens_ok_def fresh_id)

lemma db_ok_use_invite [db_rules]: "db_ok d \<Longrightarrow> db_ok (snd (use_invite u c t d))"
  by (auto simp: db_ok_def use_invite_def invites_ok_def map_key image_iff split: if_splits)

lemma db_ok_select_lookup [db_rules]: "db_ok d \<Longrightarrow> db_ok (snd (select_lookup l d))"
  by (simp add: select_lookup_def db_rules)

lemma db_ok_select_online_by_ip [db_rules]: "db_ok d \<Longrightarrow> db_ok (snd (select_online_by_ip c i d))"
  by (simp add: select_online_by_ip_def split: option.splits)

lemma db_ok_search_users [db_rules]: "db_ok d \<Longrightarrow> db_ok (snd (search_users p d))"
  by (simp add: search_users_def)

lemma db_ok_upsert_presence [db_rules]: "db_ok d \<Longrightarrow> db_ok (snd (upsert_presence u i p t d))"
proof -
  assume ok: "db_ok d"
  then have "presence_ok (d\<lparr>presence := map (\<lambda>r. if p_user r = u
      then r\<lparr>p_ip := i, p_port := p, p_seen := t\<rparr> else r) (presence d)\<rparr>)"
    by (auto simp: db_ok_def presence_ok_def map_key)
  then show ?thesis using ok db_ok_insert_presence [OF ok, of u i p t]
    by (simp add: db_ok_def upsert_presence_def)
qed

lemma db_ok_touch_presence [db_rules]: "db_ok d \<Longrightarrow> db_ok (snd (touch_presence u t d))"
  by (auto simp: db_ok_def touch_presence_def presence_ok_def map_key)

text \<open>Cascades leave no dangling reference.\<close>

lemma clear_ref_refs: "set_option r \<subseteq> S \<Longrightarrow> set_option (clear_ref u r) \<subseteq> S - {u}"
  by (auto simp: clear_ref_def split: if_splits)

lemma db_ok_delete_user [db_rules]:
  assumes "db_ok d"
  shows "db_ok (snd (delete_user u d))"
proof -
  let ?d = "snd (delete_user u d)"
  have ids: "user_ids ?d = user_ids d - {u}" by (auto simp: delete_user_def user_ids_def)
  have "users_ok ?d" "presence_ok ?d" "tokens_ok ?d"
    using assms unfolding users_ok_def presence_ok_def tokens_ok_def ids
    by (auto simp: db_ok_def table_ok_defs delete_user_def distinct_map_filter)
  moreover have "invites_ok ?d" "sessions_ok ?d"
    using assms clear_ref_refs unfolding invites_ok_def sessions_ok_def ids
    by (auto simp: db_ok_def table_ok_defs delete_user_def map_key dest!: clear_ref_refs [of _ "user_ids d" u])
  moreover have "members_ok ?d" "messages_ok ?d" "gconfig_ok ?d"
    using assms by (simp_all add: db_ok_def delete_user_def)
  ultimately show ?thesis by (simp add: db_ok_def)
qed

lemma db_ok_count_tokens [db_rules]: "db_ok d \<Longrightarrow> db_ok (snd (count_tokens u d))"
  by (simp add: count_tokens_def db_rules)

lemma db_ok_delete_oldest_token [db_rules]: "db_ok d \<Longrightarrow> db_ok (snd (delete_oldest_token u d))"
  by (auto simp: db_ok_def delete_oldest_token_def tokens_ok_def distinct_map_filter)

lemma db_ok_insert_invite [db_rules]: "db_ok d \<Longrightarrow> db_ok (snd (insert_invite c u t d))"
  by (auto simp: db_ok_def insert_invite_def invites_ok_def)

lemma db_ok_select_token [db_rules]: "db_ok d \<Longrightarrow> db_ok (snd (select_token h n d))"
  by (simp add: select_token_def db_rules)

lemma db_ok_insert_session [db_rules]: "db_ok d \<Longrightarrow> db_ok (snd (insert_session s u t d))"
  by (auto simp: db_ok_def insert_session_def sessions_ok_def)

lemma db_ok_set_joiner [db_rules]: "db_ok d \<Longrightarrow> db_ok (snd (set_joiner u s d))"
  by (auto simp: db_ok_def set_joiner_def sessions_ok_def map_key image_iff split: if_splits)

lemma db_ok_select_member [db_rules]: "db_ok d \<Longrightarrow> db_ok (snd (select_member h d))"
  by (simp add: select_member_def db_rules)

lemma db_ok_select_config [db_rules]: "db_ok d \<Longrightarrow> db_ok (snd (select_config k d))"
  by (simp add: select_config_def db_rules)

lemma db_ok_insert_config [db_rules]: "db_ok d \<Longrightarrow> db_ok (snd (insert_config k v d))"
  by (auto simp: db_ok_def insert_config_def gconfig_ok_def)

lemma db_ok_count_members [db_rules]: "db_ok d \<Longrightarrow> db_ok (snd (count_members d))"
  by (simp add: count_members_def db_rules)

lemma upsert_hashes:
  assumes "distinct (map m_hash ms)" "distinct (map m_name ms)" "\<forall>m \<in> set ms. m_hash m = h \<longrightarrow> m_name m = n"
  shows "distinct (map (m_hash \<circ> (\<lambda>m. if m_name m = n then m\<lparr>m_pubkey := p, m_hash := h\<rparr> else m)) ms)"
proof -
  let ?f = "m_hash \<circ> (\<lambda>m. if m_name m = n then m\<lparr>m_pubkey := p, m_hash := h\<rparr> else m)"
  have f: "?f m = (if m_name m = n then h else m_hash m)" for m by simp
  have "inj_on ?f (set ms)"
  proof (rule inj_onI)
    fix x y assume in_ms: "x \<in> set ms" "y \<in> set ms" and "?f x = ?f y"
    then have "m_name x = m_name y \<or> m_hash x = m_hash y"
      unfolding f using assms(3) by (metis (full_types))
    then show "x = y" using assms(1,2) in_ms by (metis distinct_map inj_onD)
  qed
  then show ?thesis using assms(1) by (simp only: distinct_map)
qed

lemma members_ok_upsert:
  assumes ok: "members_ok d"
  shows "members_ok (snd (upsert_member n p h r t d))"
proof (cases "\<exists>m \<in> set (members d). m_hash m = h \<and> m_name m \<noteq> n")
  case True
  then show ?thesis using ok by (simp add: upsert_member_def)
next
  case False
  then have own: "\<forall>m \<in> set (members d). m_hash m = h \<longrightarrow> m_name m = n" by blast
  show ?thesis
  proof (cases "n \<in> m_name ` set (members d)")
    case True
    then have "snd (upsert_member n p h r t d) = d\<lparr>members := map (\<lambda>m. if m_name m = n
        then m\<lparr>m_pubkey := p, m_hash := h\<rparr> else m) (members d)\<rparr>"
      using False by (simp only: upsert_member_def if_False if_True snd_conv)
    then show ?thesis using ok own by (auto simp: members_ok_def map_key upsert_hashes)
  next
    case new: False
    then have "h \<notin> m_hash ` set (members d)" using own by blast
    with False new show ?thesis using ok
      by (auto simp: upsert_member_def Let_def members_ok_def fresh_id)
  qed
qed

lemma db_ok_upsert_member [db_rules]: "db_ok d \<Longrightarrow> db_ok (snd (upsert_member n p h r t d))"
  using members_ok_upsert [of d n p h r t] by (auto simp: db_ok_def upsert_member_def Let_def)

lemma db_ok_delete_member [db_rules]: "db_ok d \<Longrightarrow> db_ok (snd (delete_member n d))"
  by (auto simp: db_ok_def delete_member_def members_ok_def distinct_map_filter)

lemma db_ok_list_members [db_rules]: "db_ok d \<Longrightarrow> db_ok (snd (list_members d))"
  by (simp add: list_members_def db_rules)

lemma db_ok_select_history [db_rules]: "db_ok d \<Longrightarrow> db_ok (snd (select_history l d))"
  by (simp add: select_history_def db_rules)

lemma db_ok_insert_message [db_rules]: "db_ok d \<Longrightarrow> db_ok (snd (insert_message s t n d))"
  by (auto simp: db_ok_def insert_message_def Let_def messages_ok_def sorted_wrt_append)

lemma db_ok_prune_messages [db_rules]: "db_ok d \<Longrightarrow> db_ok (snd (prune_messages l d))"
  by (auto simp: db_ok_def prune_messages_def messages_ok_def sorted_wrt_map intro: sorted_wrt_filter)

end
