(* ===== verification/Config.thy ===== *)
theory Config
  imports Errors "HOL-Library.Monad_Syntax"
begin

text \<open>
  The configuration file (\<open>src/config.rs\<close>): one record per struct, the \<open>default_*\<close> functions,
  the two \<open>Default\<close> impls, and what the \<open>Deserialize\<close> derive makes of the \<open>#[serde(default)]\<close>
  attributes. A derived struct reads a JSON object (a repeated field is an error, an unknown one
  is skipped) or an array of its fields in order; a missing field takes its default if the
  attribute gives one and is an error otherwise. Integers keep the width of their Rust type, and
  a number that does not fit is an error. \<open>None\<close> is \<open>invalid config.json\<close>.
\<close>

type_synonym u16 = "16 word"
type_synonym u32 = "32 word"
type_synonym u64 = "64 word"

record server_config =
  srv_port :: u16
  srv_name :: string
  srv_description :: string
  srv_public :: bool

record registration_config =
  reg_open :: bool
  require_email :: bool
  require_invite :: bool
  max_users :: u32
  username_min_length :: u64
  username_max_length :: u64
  username_regex :: string

record tokens_config =
  ttl_days :: u32
  max_per_user :: u32

record storage_config =
  sto_driver :: string
  sto_path :: string
  sto_url :: string

record presence_config =
  offline_after_minutes :: u32
  ip_update_interval_seconds :: u32

record compatibility_config =
  min_client_version :: string

record relay_config =
  relay_enabled :: bool
  max_sessions :: u32
  session_timeout_seconds :: u64
  max_session_bytes :: u64

record group_config =
  grp_name :: string
  grp_description :: string
  max_members :: u32
  invite_only :: bool
  grp_history :: bool
  history_limit :: u32
  allow_file_relay :: bool
  broadcast_only :: bool

record config =
  cfg_server :: server_config
  cfg_registration :: registration_config
  cfg_tokens :: tokens_config
  cfg_storage :: storage_config
  cfg_presence :: presence_config
  cfg_compatibility :: compatibility_config
  cfg_relay :: relay_config
  cfg_group :: group_config

section \<open>Defaults\<close>

definition default_true :: bool where "default_true = True"
definition default_port :: u16 where "default_port = 47822"
definition default_server_name :: string where "default_server_name = ''Naleystogramm Server''"
definition default_username_min :: u64 where "default_username_min = 3"
definition default_username_max :: u64 where "default_username_max = 32"
definition default_username_regex :: string where
  "default_username_regex = ''^[a-zA-Z0-9_.'' @ [CHR 0x5C] @ ''-]+$''"
definition default_max_per_user :: u32 where "default_max_per_user = 3"
definition default_driver :: string where "default_driver = ''sqlite''"
definition default_db_path :: string where "default_db_path = ''./naleys_server.db''"
definition default_offline_after :: u32 where "default_offline_after = 30"
definition default_ip_update_interval :: u32 where "default_ip_update_interval = 60"
definition default_min_version :: string where "default_min_version = ''latest''"
definition default_session_timeout :: u64 where "default_session_timeout = 30"
definition default_history_limit :: u32 where "default_history_limit = 1000"

lemmas field_defaults =
  default_true_def default_port_def default_server_name_def default_username_min_def
  default_username_max_def default_username_regex_def default_max_per_user_def default_driver_def
  default_db_path_def default_offline_after_def default_ip_update_interval_def
  default_min_version_def default_session_timeout_def default_history_limit_def

text \<open>\<open>impl Default for RelayConfig\<close> and \<open>impl Default for GroupConfig\<close>, values as written there.\<close>

definition relay_default :: relay_config where
  "relay_default =
     \<lparr>relay_enabled = True, max_sessions = 0, session_timeout_seconds = 30, max_session_bytes = 0\<rparr>"

definition group_default :: group_config where
  "group_default =
     \<lparr>grp_name = [], grp_description = [], max_members = 0, invite_only = False, grp_history = True,
      history_limit = 1000, allow_file_relay = True, broadcast_only = False\<rparr>"

section \<open>Deserialization\<close>

fun de_bool :: "json \<Rightarrow> bool option" where
  "de_bool (JBool b) = Some b"
| "de_bool v = None"

fun de_string :: "json \<Rightarrow> string option" where
  "de_string (JStr s) = Some s"
| "de_string v = None"

fun de_word :: "json \<Rightarrow> 'w::len word option" where
  "de_word (JInt i) = (if 0 \<le> i \<and> i < 2 ^ LENGTH('w) then Some (word_of_int i) else None)"
| "de_word v = None"

text \<open>The members of a struct, by name from an object or by position from an array.\<close>

definition field_of :: "(string \<times> json) list \<Rightarrow> string \<Rightarrow> json option option" where
  "field_of kvs k =
     (case filter (\<lambda>kv. fst kv = k) kvs of [] \<Rightarrow> Some None | [kv] \<Rightarrow> Some (Some (snd kv)) | _ \<Rightarrow> None)"

fun struct_field :: "json \<Rightarrow> string list \<Rightarrow> nat \<Rightarrow> json option option" where
  "struct_field (JObj kvs) names i = field_of kvs (names ! i)"
| "struct_field (JArr xs) names i =
     (if length names < length xs then None else if i < length xs then Some (Some (xs ! i)) else Some None)"
| "struct_field v names i = None"

definition required :: "(json \<Rightarrow> 'a option) \<Rightarrow> json \<Rightarrow> string list \<Rightarrow> nat \<Rightarrow> 'a option" where
  "required d j names i =
     (case struct_field j names i of Some (Some v) \<Rightarrow> d v | _ \<Rightarrow> None)"

definition defaulted :: "'a \<Rightarrow> (json \<Rightarrow> 'a option) \<Rightarrow> json \<Rightarrow> string list \<Rightarrow> nat \<Rightarrow> 'a option" where
  "defaulted x d j names i =
     (case struct_field j names i of None \<Rightarrow> None | Some None \<Rightarrow> Some x | Some (Some v) \<Rightarrow> d v)"

definition de_server :: "json \<Rightarrow> server_config option" where
  "de_server j =
     (let f = [''port'', ''name'', ''description'', ''public''] in
      do { p \<leftarrow> defaulted default_port de_word j f 0;
           n \<leftarrow> defaulted default_server_name de_string j f 1;
           d \<leftarrow> defaulted [] de_string j f 2;
           b \<leftarrow> defaulted default_true de_bool j f 3;
           Some \<lparr>srv_port = p, srv_name = n, srv_description = d, srv_public = b\<rparr> })"

definition de_registration :: "json \<Rightarrow> registration_config option" where
  "de_registration j =
     (let f = [''open'', ''require_email'', ''require_invite'', ''max_users'',
               ''username_min_length'', ''username_max_length'', ''username_regex''] in
      do { op \<leftarrow> defaulted default_true de_bool j f 0;
           re \<leftarrow> defaulted False de_bool j f 1;
           ri \<leftarrow> defaulted False de_bool j f 2;
           mu \<leftarrow> defaulted 0 de_word j f 3;
           lo \<leftarrow> defaulted default_username_min de_word j f 4;
           hi \<leftarrow> defaulted default_username_max de_word j f 5;
           rx \<leftarrow> defaulted default_username_regex de_string j f 6;
           Some \<lparr>reg_open = op, require_email = re, require_invite = ri, max_users = mu,
                 username_min_length = lo, username_max_length = hi, username_regex = rx\<rparr> })"

definition de_tokens :: "json \<Rightarrow> tokens_config option" where
  "de_tokens j =
     (let f = [''ttl_days'', ''max_per_user''] in
      do { t \<leftarrow> defaulted 0 de_word j f 0;
           m \<leftarrow> defaulted default_max_per_user de_word j f 1;
           Some \<lparr>ttl_days = t, max_per_user = m\<rparr> })"

definition de_storage :: "json \<Rightarrow> storage_config option" where
  "de_storage j =
     (let f = [''driver'', ''path'', ''url''] in
      do { d \<leftarrow> defaulted default_driver de_string j f 0;
           p \<leftarrow> defaulted default_db_path de_string j f 1;
           u \<leftarrow> defaulted [] de_string j f 2;
           Some \<lparr>sto_driver = d, sto_path = p, sto_url = u\<rparr> })"

definition de_presence :: "json \<Rightarrow> presence_config option" where
  "de_presence j =
     (let f = [''offline_after_minutes'', ''ip_update_interval_seconds''] in
      do { o' \<leftarrow> defaulted default_offline_after de_word j f 0;
           i \<leftarrow> defaulted default_ip_update_interval de_word j f 1;
           Some \<lparr>offline_after_minutes = o', ip_update_interval_seconds = i\<rparr> })"

definition de_compatibility :: "json \<Rightarrow> compatibility_config option" where
  "de_compatibility j =
     do { v \<leftarrow> defaulted default_min_version de_string j [''min_client_version''] 0;
          Some \<lparr>min_client_version = v\<rparr> }"

definition de_relay :: "json \<Rightarrow> relay_config option" where
  "de_relay j =
     (let f = [''enabled'', ''max_sessions'', ''session_timeout_seconds'', ''max_session_bytes''] in
      do { e \<leftarrow> defaulted default_true de_bool j f 0;
           m \<leftarrow> defaulted 0 de_word j f 1;
           t \<leftarrow> defaulted default_session_timeout de_word j f 2;
           b \<leftarrow> defaulted 0 de_word j f 3;
           Some \<lparr>relay_enabled = e, max_sessions = m, session_timeout_seconds = t,
                 max_session_bytes = b\<rparr> })"

definition de_group :: "json \<Rightarrow> group_config option" where
  "de_group j =
     (let f = [''name'', ''description'', ''max_members'', ''invite_only'', ''history'',
               ''history_limit'', ''allow_file_relay'', ''broadcast_only''] in
      do { n \<leftarrow> defaulted [] de_string j f 0;
           d \<leftarrow> defaulted [] de_string j f 1;
           m \<leftarrow> defaulted 0 de_word j f 2;
           i \<leftarrow> defaulted False de_bool j f 3;
           h \<leftarrow> defaulted default_true de_bool j f 4;
           l \<leftarrow> defaulted default_history_limit de_word j f 5;
           a \<leftarrow> defaulted default_true de_bool j f 6;
           b \<leftarrow> defaulted False de_bool j f 7;
           Some \<lparr>grp_name = n, grp_description = d, max_members = m, invite_only = i,
                 grp_history = h, history_limit = l, allow_file_relay = a, broadcast_only = b\<rparr> })"

definition config_fields :: "string list" where
  "config_fields = [''server'', ''registration'', ''tokens'', ''storage'', ''presence'',
     ''compatibility'', ''relay'', ''group'']"

definition de_config :: "json \<Rightarrow> config option" where
  "de_config j =
     do { s \<leftarrow> required de_server j config_fields 0;
          r \<leftarrow> required de_registration j config_fields 1;
          t \<leftarrow> required de_tokens j config_fields 2;
          o' \<leftarrow> required de_storage j config_fields 3;
          p \<leftarrow> required de_presence j config_fields 4;
          c \<leftarrow> required de_compatibility j config_fields 5;
          l \<leftarrow> defaulted relay_default de_relay j config_fields 6;
          g \<leftarrow> defaulted group_default de_group j config_fields 7;
          Some \<lparr>cfg_server = s, cfg_registration = r, cfg_tokens = t, cfg_storage = o',
                cfg_presence = p, cfg_compatibility = c, cfg_relay = l, cfg_group = g\<rparr> }"

section \<open>Every configuration can be written down\<close>

text \<open>A reference encoder, and the lemma that decoding inverts it.\<close>

definition en_server :: "server_config \<Rightarrow> json" where
  "en_server c = JObj [(''port'', JInt (uint (srv_port c))), (''name'', JStr (srv_name c)),
     (''description'', JStr (srv_description c)), (''public'', JBool (srv_public c))]"

definition en_registration :: "registration_config \<Rightarrow> json" where
  "en_registration c = JObj [(''open'', JBool (reg_open c)), (''require_email'', JBool (require_email c)),
     (''require_invite'', JBool (require_invite c)), (''max_users'', JInt (uint (max_users c))),
     (''username_min_length'', JInt (uint (username_min_length c))),
     (''username_max_length'', JInt (uint (username_max_length c))),
     (''username_regex'', JStr (username_regex c))]"

definition en_tokens :: "tokens_config \<Rightarrow> json" where
  "en_tokens c = JObj [(''ttl_days'', JInt (uint (ttl_days c))), (''max_per_user'', JInt (uint (max_per_user c)))]"

definition en_storage :: "storage_config \<Rightarrow> json" where
  "en_storage c = JObj [(''driver'', JStr (sto_driver c)), (''path'', JStr (sto_path c)), (''url'', JStr (sto_url c))]"

definition en_presence :: "presence_config \<Rightarrow> json" where
  "en_presence c = JObj [(''offline_after_minutes'', JInt (uint (offline_after_minutes c))),
     (''ip_update_interval_seconds'', JInt (uint (ip_update_interval_seconds c)))]"

definition en_compatibility :: "compatibility_config \<Rightarrow> json" where
  "en_compatibility c = JObj [(''min_client_version'', JStr (min_client_version c))]"

definition en_relay :: "relay_config \<Rightarrow> json" where
  "en_relay c = JObj [(''enabled'', JBool (relay_enabled c)), (''max_sessions'', JInt (uint (max_sessions c))),
     (''session_timeout_seconds'', JInt (uint (session_timeout_seconds c))),
     (''max_session_bytes'', JInt (uint (max_session_bytes c)))]"

definition en_group :: "group_config \<Rightarrow> json" where
  "en_group c = JObj [(''name'', JStr (grp_name c)), (''description'', JStr (grp_description c)),
     (''max_members'', JInt (uint (max_members c))), (''invite_only'', JBool (invite_only c)),
     (''history'', JBool (grp_history c)), (''history_limit'', JInt (uint (history_limit c))),
     (''allow_file_relay'', JBool (allow_file_relay c)), (''broadcast_only'', JBool (broadcast_only c))]"

definition en_config :: "config \<Rightarrow> json" where
  "en_config c = JObj [(''server'', en_server (cfg_server c)), (''registration'', en_registration (cfg_registration c)),
     (''tokens'', en_tokens (cfg_tokens c)), (''storage'', en_storage (cfg_storage c)),
     (''presence'', en_presence (cfg_presence c)), (''compatibility'', en_compatibility (cfg_compatibility c)),
     (''relay'', en_relay (cfg_relay c)), (''group'', en_group (cfg_group c))]"

lemma de_word_uint [simp]: "de_word (JInt (uint w)) = Some w"
  using uint_lt2p [of w] by simp

declare de_word.simps(1) [simp del]

lemmas de_field_simps = required_def defaulted_def field_of_def Let_def

lemma de_en_server: "de_server (en_server c) = Some c"
  by (simp add: de_server_def en_server_def de_field_simps)

lemma de_en_registration: "de_registration (en_registration c) = Some c"
  by (simp add: de_registration_def en_registration_def de_field_simps)

lemma de_en_tokens: "de_tokens (en_tokens c) = Some c"
  by (simp add: de_tokens_def en_tokens_def de_field_simps)

lemma de_en_storage: "de_storage (en_storage c) = Some c"
  by (simp add: de_storage_def en_storage_def de_field_simps)

lemma de_en_presence: "de_presence (en_presence c) = Some c"
  by (simp add: de_presence_def en_presence_def de_field_simps)

lemma de_en_compatibility: "de_compatibility (en_compatibility c) = Some c"
  by (simp add: de_compatibility_def en_compatibility_def de_field_simps)

lemma de_en_relay: "de_relay (en_relay c) = Some c"
  by (simp add: de_relay_def en_relay_def de_field_simps)

lemma de_en_group: "de_group (en_group c) = Some c"
  by (simp add: de_group_def en_group_def de_field_simps)

lemmas de_en_sections =
  de_en_server de_en_registration de_en_tokens de_en_storage de_en_presence de_en_compatibility
  de_en_relay de_en_group

lemma de_en_config: "de_config (en_config c) = Some c"
  by (simp add: de_config_def en_config_def config_fields_def de_field_simps de_en_sections)

lemma de_relay_empty: "de_relay (JObj []) = Some relay_default"
  by (simp add: de_relay_def relay_default_def de_field_simps field_defaults)

lemma de_group_empty: "de_group (JObj []) = Some group_default"
  by (simp add: de_group_def group_default_def de_field_simps field_defaults)


end
