(* ===== verification/Ip_Addr.thy ===== *)
theory Ip_Addr
  imports Prelude
begin

text \<open>
  \<open>std::net::IpAddr\<close> and its \<open>FromStr\<close>, which the handlers use to validate the address a client
  announces (\<open>body.ip.parse::<IpAddr>()\<close> in \<open>src/discovery.rs\<close>) and which is the key of the rate
  limiter. A parser takes the bytes left and returns a value with the rest; \<open>None\<close> leaves the
  input untouched, as \<open>read_atomically\<close> does.
\<close>

datatype ip_addr = V4 "32 word" | V6 "128 word"

type_synonym 'a reader = "string \<Rightarrow> ('a \<times> string) option"

definition digit_value :: "nat \<Rightarrow> char \<Rightarrow> nat option" where
  "digit_value radix c =
     (let n = (of_char c :: nat);
          v = (if 48 \<le> n \<and> n \<le> 57 then n - 48
               else if 97 \<le> n \<and> n \<le> 122 then n - 87
               else if 65 \<le> n \<and> n \<le> 90 then n - 55
               else radix)
      in if v < radix then Some v else None)"

definition is_digit :: "nat \<Rightarrow> char \<Rightarrow> bool" where
  "is_digit radix c = (digit_value radix c \<noteq> None)"

definition digits_value :: "nat \<Rightarrow> string \<Rightarrow> nat" where
  "digits_value radix ds = foldl (\<lambda>n c. n * radix + the (digit_value radix c)) 0 ds"

text \<open>\<open>read_number(radix, max_digits, allow_zero_prefix)\<close> into a type with \<open>bound\<close> values.\<close>

definition read_number :: "nat \<Rightarrow> nat \<Rightarrow> bool \<Rightarrow> nat \<Rightarrow> nat reader" where
  "read_number radix max_digits allow_zero_prefix bound s =
     (let ds = takeWhile (is_digit radix) s; n = digits_value radix ds
      in if ds = [] \<or> max_digits < length ds \<or> bound \<le> n \<or>
            \<not> allow_zero_prefix \<and> hd ds = CHR ''0'' \<and> 1 < length ds
         then None else Some (n, dropWhile (is_digit radix) s))"

fun read_char :: "char \<Rightarrow> unit reader" where
  "read_char c [] = None"
| "read_char c (x # xs) = (if x = c then Some ((), xs) else None)"

definition read_separator :: "char \<Rightarrow> nat \<Rightarrow> 'a reader \<Rightarrow> 'a reader" where
  "read_separator sep i inner s =
     (if i = 0 then inner s
      else case read_char sep s of None \<Rightarrow> None | Some (_, r) \<Rightarrow> inner r)"

fun read_octets :: "nat \<Rightarrow> nat \<Rightarrow> nat list reader" where
  "read_octets i 0 s = Some ([], s)"
| "read_octets i (Suc k) s =
     (case read_separator (CHR ''.'') i (read_number 10 3 False 256) s of
        None \<Rightarrow> None
      | Some (n, r) \<Rightarrow> map_option (apfst (Cons n)) (read_octets (Suc i) k r))"

definition read_ipv4 :: "nat list reader" where
  "read_ipv4 s = read_octets 0 4 s"

text \<open>
  \<open>read_groups\<close>: up to \<open>limit\<close> groups of the address, the last two possibly written as an IPv4
  address. Returns the groups read and whether the embedded form was used.
\<close>

function read_groups :: "nat \<Rightarrow> nat \<Rightarrow> string \<Rightarrow> nat list \<times> bool \<times> string" where
  "read_groups limit i s =
     (if limit \<le> i then ([], False, s)
      else
        (case (if Suc i < limit then read_separator (CHR '':'') i read_ipv4 s else None) of
           Some (os, r) \<Rightarrow> ([os ! 0 * 256 + os ! 1, os ! 2 * 256 + os ! 3], True, r)
         | None \<Rightarrow>
             (case read_separator (CHR '':'') i (read_number 16 4 True 65536) s of
                None \<Rightarrow> ([], False, s)
              | Some (g, r) \<Rightarrow> (case read_groups limit (Suc i) r of (gs, e, r') \<Rightarrow> (g # gs, e, r')))))"
  by pat_completeness auto
termination
  by (relation "measure (\<lambda>(limit, i, s). limit - i)") auto

declare read_groups.simps [simp del]

definition read_ipv6 :: "nat list reader" where
  "read_ipv6 s =
     (case read_groups 8 0 s of (head, head_ipv4, r) \<Rightarrow>
        if length head = 8 then Some (head, r)
        else if head_ipv4 then None
        else
          (case Option.bind (read_char (CHR '':'') r) (\<lambda>(_, r1). read_char (CHR '':'') r1) of
             None \<Rightarrow> None
           | Some (_, r2) \<Rightarrow>
               (case read_groups (8 - (length head + 1)) 0 r2 of (tail, _, r3) \<Rightarrow>
                  Some (head @ replicate (8 - length head - length tail) 0 @ tail, r3))))"

definition groups_value :: "nat \<Rightarrow> nat list \<Rightarrow> nat" where
  "groups_value base gs = foldl (\<lambda>n g. n * base + g) 0 gs"

text \<open>\<open>read_ip_addr\<close> under \<open>parse_with\<close>: the whole input has to be consumed.\<close>

definition parse_ip_addr :: "string \<Rightarrow> ip_addr option" where
  "parse_ip_addr s =
     (case (case read_ipv4 s of
              Some (os, r) \<Rightarrow> Some (V4 (of_nat (groups_value 256 os)), r)
            | None \<Rightarrow> (case read_ipv6 s of
                Some (gs, r) \<Rightarrow> Some (V6 (of_nat (groups_value 65536 gs)), r)
              | None \<Rightarrow> None)) of
        Some (a, []) \<Rightarrow> Some a
      | _ \<Rightarrow> None)"

section \<open>Dotted quads\<close>

text \<open>How an IPv4 address is printed: four decimal octets without leading zeros.\<close>

definition digit_char :: "nat \<Rightarrow> char" where
  "digit_char n = char_of (48 + n)"

definition octet_digits :: "nat \<Rightarrow> nat list" where
  "octet_digits n =
     (if n < 10 then [n] else if n < 100 then [n div 10, n mod 10] else [n div 100, n div 10 mod 10, n mod 10])"

definition show_octet :: "nat \<Rightarrow> string" where
  "show_octet n = map digit_char (octet_digits n)"

definition show_v4 :: "nat \<Rightarrow> nat \<Rightarrow> nat \<Rightarrow> nat \<Rightarrow> string" where
  "show_v4 a b c d = show_octet a @ ''.'' @ show_octet b @ ''.'' @ show_octet c @ ''.'' @ show_octet d"

lemma of_char_digit_char [simp]: "n < 10 \<Longrightarrow> (of_char (digit_char n) :: nat) = 48 + n"
  by (simp add: digit_char_def)

lemma digit_value_digit_char [simp]: "n < 10 \<Longrightarrow> digit_value 10 (digit_char n) = Some n"
  by (simp add: digit_value_def Let_def)

lemma is_digit_digit_char [simp]: "n < 10 \<Longrightarrow> is_digit 10 (digit_char n)"
  by (simp add: is_digit_def)

lemma digit_char_zero: "n < 10 \<Longrightarrow> digit_char n = CHR ''0'' \<longleftrightarrow> n = 0"
proof -
  assume "n < 10"
  then have "digit_char n = CHR ''0'' \<longleftrightarrow> (of_char (digit_char n) :: nat) = of_char (CHR ''0'')"
    by (simp only: of_char_eq_iff)
  with \<open>n < 10\<close> show ?thesis by simp
qed

lemma digits_value_map:
  assumes "\<forall>d \<in> set ds. d < 10"
  shows "digits_value 10 (map digit_char ds) = foldl (\<lambda>n d. n * 10 + d) 0 ds"
proof -
  have "foldl (\<lambda>n c. n * 10 + the (digit_value 10 c)) k (map digit_char ds) = foldl (\<lambda>n d. n * 10 + d) k ds" for k
    using assms by (induction ds arbitrary: k) auto
  then show ?thesis by (simp add: digits_value_def)
qed

lemma read_digits:
  assumes ds: "\<forall>d \<in> set ds. d < 10" and rest: "r = [] \<or> \<not> is_digit 10 (hd r)"
  shows "takeWhile (is_digit 10) (map digit_char ds @ r) = map digit_char ds"
    and "dropWhile (is_digit 10) (map digit_char ds @ r) = r"
proof -
  have "takeWhile (is_digit 10) r = []" "dropWhile (is_digit 10) r = r"
    using rest by (cases r; simp)+
  then show "takeWhile (is_digit 10) (map digit_char ds @ r) = map digit_char ds"
    and "dropWhile (is_digit 10) (map digit_char ds @ r) = r"
    using ds by (induction ds) auto
qed

lemma octet_digits_ok:
  assumes "n < 256"
  shows "\<forall>d \<in> set (octet_digits n). d < 10" and "foldl (\<lambda>n d. n * 10 + d) 0 (octet_digits n) = n"
    and "octet_digits n \<noteq> []" and "length (octet_digits n) \<le> 3"
    and "1 < length (octet_digits n) \<Longrightarrow> hd (octet_digits n) \<noteq> 0"
proof -
  have two: "m div 10 * 10 + m mod 10 = m" for m :: nat by (rule div_mult_mod_eq)
  have "n div 100 = n div 10 div 10" by (simp add: div_mult2_eq [symmetric])
  then have three: "(n div 100 * 10 + n div 10 mod 10) * 10 + n mod 10 = n" by (simp only: two)
  consider "n < 10" | "\<not> n < 10" "n < 100" | "\<not> n < 10" "\<not> n < 100" by blast
  then show "foldl (\<lambda>n d. n * 10 + d) 0 (octet_digits n) = n"
    by cases (simp_all only: octet_digits_def if_True if_False foldl.simps mult_0 add_0 two three simp_thms)
  show "\<forall>d \<in> set (octet_digits n). d < 10" using assms by (auto simp: octet_digits_def)
  show "octet_digits n \<noteq> []" by (simp add: octet_digits_def)
  show "length (octet_digits n) \<le> 3" by (simp add: octet_digits_def)
  show "1 < length (octet_digits n) \<Longrightarrow> hd (octet_digits n) \<noteq> 0"
    by (cases "n < 10"; cases "n < 100") (simp_all add: octet_digits_def)
qed

text \<open>Reading back a printed octet: whatever follows must not be a digit.\<close>

lemma read_number_octet:
  assumes "n < 256" and rest: "r = [] \<or> \<not> is_digit 10 (hd r)"
  shows "read_number 10 3 False 256 (show_octet n @ r) = Some (n, r)"
proof -
  note ok = octet_digits_ok [OF assms(1)]
  have "hd (map digit_char (octet_digits n)) \<noteq> CHR ''0''" if "1 < length (octet_digits n)"
    using ok(1,3,5) that by (simp add: hd_map digit_char_zero)
  moreover have "\<not> 3 < length (octet_digits n)" using ok(4) by simp
  moreover have "digits_value 10 (map digit_char (octet_digits n)) = n"
    by (simp only: digits_value_map [OF ok(1)] ok(2))
  ultimately show ?thesis
    using ok(3) assms(1)
    by (simp only: read_number_def show_octet_def Let_def read_digits [OF ok(1) rest]) auto
qed

lemma not_digit_dot: "\<not> is_digit 10 (CHR ''.'')"
  by (simp add: is_digit_def digit_value_def)

lemma read_octet_dot:
  "n < 256 \<Longrightarrow> read_number 10 3 False 256 (show_octet n @ CHR ''.'' # r) = Some (n, CHR ''.'' # r)"
  by (rule read_number_octet) (simp_all add: not_digit_dot)

lemma read_octet_end: "n < 256 \<Longrightarrow> read_number 10 3 False 256 (show_octet n) = Some (n, [])"
  using read_number_octet [of n "[]"] by simp

lemma read_octets_Suc:
  "read_octets i (Suc k) s =
     (case read_separator (CHR ''.'') i (read_number 10 3 False 256) s of
        None \<Rightarrow> None | Some (n, r) \<Rightarrow> map_option (apfst (Cons n)) (read_octets (Suc i) k r))"
  by simp

lemma read_ipv4_show:
  assumes "a < 256" "b < 256" "c < 256" "d < 256"
  shows "read_ipv4 (show_v4 a b c d) = Some ([a, b, c, d], [])"
proof -
  have four: "(4 :: nat) = Suc (Suc (Suc (Suc 0)))" by simp
  show ?thesis
    using assms unfolding read_ipv4_def show_v4_def four
    by (simp add: read_separator_def read_octet_dot read_octet_end)
qed

lemma parse_show_v4:
  assumes "a < 256" "b < 256" "c < 256" "d < 256"
  shows "parse_ip_addr (show_v4 a b c d) = Some (V4 (of_nat (((a * 256 + b) * 256 + c) * 256 + d)))"
  using assms by (simp add: parse_ip_addr_def read_ipv4_show groups_value_def)

end
