(* ===== verification/Rate_Limit.thy ===== *)
theory Rate_Limit
  imports Ip_Addr
begin

text \<open>
  The sliding-window limiter (\<open>src/rate_limit.rs\<close>). Two tables, one for \<open>/register\<close> and one for
  \<open>/lookup\<close>, each from a peer address to the instants of its admitted requests. An \<open>Instant\<close> is a
  number of nanoseconds; \<open>duration_since\<close> saturates at zero, as subtraction on \<open>nat\<close> does. The
  clock is read under the lock, so the instants of successive calls never decrease.

  The abstract view of one address is the list of all its admitted instants (\<open>log\<close>), never pruned:
  \<open>admit\<close> decides on the log. The locale \<open>window_limiter\<close> is the contract "decides as the log
  would"; from it follow the bound (the \<open>n + limit\<close>-th admitted request comes at least one window
  after the \<open>n\<close>-th, \<open>spaced\<close>) and the independence of addresses. Both tables satisfy it.
\<close>

type_synonym rate_table = "(ip_addr, nat list) hmap"

record rate_limiter =
  rl_register :: rate_table
  rl_lookup :: rate_table

definition new_limiter :: rate_limiter where
  "new_limiter = \<lparr>rl_register = [], rl_lookup = []\<rparr>"

definition secs :: "nat \<Rightarrow> nat" where
  "secs n = n * 1000000000"

definition times_of :: "ip_addr \<Rightarrow> rate_table \<Rightarrow> nat list" where
  "times_of ip m = (case map_of m ip of None \<Rightarrow> [] | Some ts \<Rightarrow> ts)"

definition check :: "nat \<Rightarrow> nat \<Rightarrow> ip_addr \<Rightarrow> nat \<Rightarrow> rate_table \<Rightarrow> bool \<times> rate_table" where
  "check limit window ip now m =
     (let times = filter (\<lambda>t. now - t < window) (times_of ip m)
      in if limit \<le> length times then (False, AList.update ip times m)
         else (True, AList.update ip (times @ [now]) m))"

definition allow_register :: "ip_addr \<Rightarrow> nat \<Rightarrow> rate_limiter \<Rightarrow> bool \<times> rate_limiter" where
  "allow_register ip now l =
     (case check 5 (secs 3600) ip now (rl_register l) of (ok, m) \<Rightarrow> (ok, l\<lparr>rl_register := m\<rparr>))"

definition allow_lookup :: "ip_addr \<Rightarrow> nat \<Rightarrow> rate_limiter \<Rightarrow> bool \<times> rate_limiter" where
  "allow_lookup ip now l =
     (case check 60 (secs 60) ip now (rl_lookup l) of (ok, m) \<Rightarrow> (ok, l\<lparr>rl_lookup := m\<rparr>))"

section \<open>One address: what is stored and what it stands for\<close>

definition admit :: "nat \<Rightarrow> nat \<Rightarrow> nat \<Rightarrow> nat list \<Rightarrow> bool" where
  "admit limit window now log = (length (filter (\<lambda>t. now - t < window) log) < limit)"

text \<open>
  A run of calls \<open>(address, instant)\<close>, on a limiter (a decision and a next state) and on the logs
  of every address.
\<close>

fun allow_run :: "(ip_addr \<Rightarrow> nat \<Rightarrow> 'l \<Rightarrow> bool \<times> 'l) \<Rightarrow> (ip_addr \<times> nat) list \<Rightarrow> 'l \<Rightarrow> bool list" where
  "allow_run decide [] l = []"
| "allow_run decide (c # cs) l =
     (let r = decide (fst c) (snd c) l in fst r # allow_run decide cs (snd r))"

definition log_add :: "nat \<Rightarrow> nat \<Rightarrow> ip_addr \<Rightarrow> nat \<Rightarrow> (ip_addr \<Rightarrow> nat list) \<Rightarrow> (ip_addr \<Rightarrow> nat list)" where
  "log_add limit window ip now L = (if admit limit window now (L ip) then L(ip := L ip @ [now]) else L)"

fun admit_run :: "nat \<Rightarrow> nat \<Rightarrow> (ip_addr \<times> nat) list \<Rightarrow> (ip_addr \<Rightarrow> nat list) \<Rightarrow> bool list" where
  "admit_run limit window [] L = []"
| "admit_run limit window (c # cs) L =
     admit limit window (snd c) (L (fst c)) # admit_run limit window cs (log_add limit window (fst c) (snd c) L)"

text \<open>The instants admitted for one address, and its own calls.\<close>

definition admitted :: "ip_addr \<Rightarrow> (ip_addr \<times> nat) list \<Rightarrow> bool list \<Rightarrow> nat list" where
  "admitted ip cs oks = map (snd \<circ> fst) (filter (\<lambda>(c, ok). fst c = ip \<and> ok) (zip cs oks))"

definition own :: "ip_addr \<Rightarrow> (ip_addr \<times> nat) list \<Rightarrow> (ip_addr \<times> nat) list" where
  "own ip cs = filter (\<lambda>c. fst c = ip) cs"

text \<open>At most \<open>limit\<close> admitted instants in any window.\<close>

definition spaced :: "nat \<Rightarrow> nat \<Rightarrow> nat list \<Rightarrow> bool" where
  "spaced limit window log \<longleftrightarrow>
     sorted log \<and> (\<forall>i. i + limit < length log \<longrightarrow> window \<le> log ! (i + limit) - log ! i)"

lemma spaced_snoc:
  assumes sp: "spaced limit window log" and pos: "0 < limit" and le: "\<forall>t \<in> set log. t \<le> now"
    and ok: "admit limit window now log"
  shows "spaced limit window (log @ [now])"
  unfolding spaced_def
proof (intro conjI allI impI)
  have srt: "sorted log" using sp by (simp add: spaced_def)
  then show "sorted (log @ [now])" using le by (simp add: sorted_append)
  fix i assume i: "i + limit < length (log @ [now])"
  show "window \<le> (log @ [now]) ! (i + limit) - (log @ [now]) ! i"
  proof (cases "i + limit < length log")
    case True
    then show ?thesis using sp by (simp add: spaced_def nth_append)
  next
    case False
    with i have il: "i + limit = length log" by simp
    show ?thesis
    proof (rule ccontr)
      assume "\<not> ?thesis"
      then have recent: "now - log ! i < window" using il pos by (simp add: nth_append)
      have "now - t < window" if t: "t \<in> set (drop i log)" for t
      proof -
        obtain j where "j < length log - i" "t = log ! (i + j)"
          using t by (auto simp: in_set_conv_nth)
        then have "log ! i \<le> t" using srt by (auto intro!: sorted_nth_mono)
        then show ?thesis using recent by linarith
      qed
      then have "filter (\<lambda>t. now - t < window) (drop i log) = drop i log" by (simp add: filter_id_conv)
      then have "length (drop i log) \<le> length (filter (\<lambda>t. now - t < window) (take i log @ drop i log))"
        by (simp only: filter_append length_append)
      then have "limit \<le> length (filter (\<lambda>t. now - t < window) log)" using il by simp
      with ok show False by (simp add: admit_def)
    qed
  qed
qed

lemma admitted_Cons:
  "admitted ip (c # cs) (ok # oks) = (if fst c = ip \<and> ok then [snd c] else []) @ admitted ip cs oks"
  by (simp add: admitted_def)

lemma admit_run_spaced:
  assumes "0 < limit" "sorted (t # map snd cs)" "spaced limit window (L ip)" "\<forall>u \<in> set (L ip). u \<le> t"
  shows "spaced limit window (L ip @ admitted ip cs (admit_run limit window cs L))"
  using assms
proof (induction cs arbitrary: t L)
  case Nil
  then show ?case by (simp add: admitted_def)
next
  case (Cons c cs)
  let ?L = "log_add limit window (fst c) (snd c) L"
  have le: "t \<le> snd c" "\<forall>u \<in> set (L ip). u \<le> snd c" using Cons.prems(2,4) by (auto intro: order_trans)
  have new: "?L ip = L ip @ (if fst c = ip \<and> admit limit window (snd c) (L ip) then [snd c] else [])"
    by (auto simp: log_add_def)
  have "spaced limit window (?L ip)" "\<forall>u \<in> set (?L ip). u \<le> snd c"
    using Cons.prems(1,3) le by (auto simp: new intro: spaced_snoc)
  from Cons.IH [of "snd c" ?L, OF Cons.prems(1) _ this] Cons.prems(2)
  show ?case by (auto simp: admitted_Cons new)
qed

lemma own_Cons: "own ip (c # cs) = (if fst c = ip then [c] else []) @ own ip cs"
  by (simp add: own_def)

lemma admit_run_own_cong:
  "L ip = M ip \<Longrightarrow> admit_run limit window (own ip cs) L = admit_run limit window (own ip cs) M"
proof (induction cs arbitrary: L M)
  case Nil
  then show ?case by (simp add: own_def)
next
  case (Cons c cs)
  have "log_add limit window ip (snd c) L ip = log_add limit window ip (snd c) M ip"
    using Cons.prems by (simp add: log_add_def)
  then have "admit_run limit window (own ip cs) (log_add limit window ip (snd c) L)
      = admit_run limit window (own ip cs) (log_add limit window ip (snd c) M)"
    by (rule Cons.IH)
  with Cons.IH [of L M, OF Cons.prems] show ?case using Cons.prems by (simp add: own_Cons)
qed

lemma admit_run_own:
  "map snd (filter (\<lambda>(c, ok). fst c = ip) (zip cs (admit_run limit window cs L)))
     = admit_run limit window (own ip cs) L"
proof (induction cs arbitrary: L)
  case Nil
  then show ?case by (simp add: own_def)
next
  case (Cons c cs)
  show ?case
  proof (cases "fst c = ip")
    case True
    then show ?thesis using Cons.IH by (simp add: own_Cons)
  next
    case False
    then have "log_add limit window (fst c) (snd c) L ip = L ip" by (simp add: log_add_def)
    then have "admit_run limit window (own ip cs) (log_add limit window (fst c) (snd c) L)
        = admit_run limit window (own ip cs) L" by (rule admit_run_own_cong)
    with False show ?thesis using Cons.IH by (simp add: own_Cons)
  qed
qed

section \<open>The interface of a limiter\<close>

text \<open>
  A limiter promises to decide as the logs would: \<open>sim t l L\<close> says that state \<open>l\<close>, last used at
  instant \<open>t\<close>, stands for the logs \<open>L\<close>.
\<close>

locale window_limiter =
  fixes limit :: nat and window :: nat
    and decide :: "ip_addr \<Rightarrow> nat \<Rightarrow> 'l \<Rightarrow> bool \<times> 'l"
    and sim :: "nat \<Rightarrow> 'l \<Rightarrow> (ip_addr \<Rightarrow> nat list) \<Rightarrow> bool"
    and start :: 'l
  assumes limit_pos: "0 < limit"
    and sim_start: "sim t start (\<lambda>_. [])"
    and decide_admit: "sim t l L \<Longrightarrow> t \<le> now \<Longrightarrow> fst (decide ip now l) = admit limit window now (L ip)"
    and sim_step: "sim t l L \<Longrightarrow> t \<le> now \<Longrightarrow>
      sim now (snd (decide ip now l)) (log_add limit window ip now L)"
begin

lemma run_admit:
  "sim t l L \<Longrightarrow> sorted (t # map snd cs) \<Longrightarrow> allow_run decide cs l = admit_run limit window cs L"
proof (induction cs arbitrary: t l L)
  case Nil
  then show ?case by simp
next
  case (Cons c cs)
  then have "t \<le> snd c" "sorted (snd c # map snd cs)" by auto
  with decide_admit [OF Cons.prems(1) this(1)] Cons.IH [OF sim_step [OF Cons.prems(1) this(1)] this(2)]
  show ?case by (simp add: Let_def)
qed

lemma start_run:
  assumes "sorted (map snd cs)"
  shows "allow_run decide cs start = admit_run limit window cs (\<lambda>_. [])"
  using run_admit [OF sim_start [of 0]] assms by simp

lemma run_spaced:
  assumes "sorted (map snd cs)"
  shows "spaced limit window (admitted ip cs (allow_run decide cs start))"
  using admit_run_spaced [of limit 0 cs window "\<lambda>_. []" ip] limit_pos assms
  by (simp add: start_run spaced_def)

lemma run_own:
  assumes "sorted (map snd cs)"
  shows "map snd (filter (\<lambda>(c, ok). fst c = ip) (zip cs (allow_run decide cs start)))
     = allow_run decide (own ip cs) start"
proof -
  have "sorted (map snd (own ip cs))"
    using assms by (auto simp: own_def sorted_map intro: sorted_wrt_filter)
  then show ?thesis using assms by (simp add: start_run admit_run_own)
qed

end

section \<open>The two tables of the server\<close>

text \<open>
  The table at instant \<open>now\<close> stands for the logs: from any later instant on, the instants inside
  the window are the same in both.
\<close>

definition stands_for :: "nat \<Rightarrow> nat \<Rightarrow> rate_table \<Rightarrow> (ip_addr \<Rightarrow> nat list) \<Rightarrow> bool" where
  "stands_for window now m L \<longleftrightarrow>
     (\<forall>ip later. now \<le> later \<longrightarrow>
        filter (\<lambda>t. later - t < window) (times_of ip m) = filter (\<lambda>t. later - t < window) (L ip))"

lemma stands_for_empty: "stands_for window now [] (\<lambda>_. [])"
  by (simp add: stands_for_def times_of_def)

lemma times_of_update: "times_of ip' (AList.update ip ts m) = (if ip' = ip then ts else times_of ip' m)"
  by (simp add: times_of_def map_of_update)

lemma filter_window_mono:
  assumes "now \<le> (later :: nat)"
  shows "filter (\<lambda>t. later - t < window) (filter (\<lambda>t. now - t < window) ts) = filter (\<lambda>t. later - t < window) ts"
proof -
  have "now - t < window" if "later - t < window" for t using that assms by linarith
  then show ?thesis by (induction ts) auto
qed

lemma check_admit:
  assumes "stands_for window t m L" "t \<le> now"
  shows "fst (check limit window ip now m) = admit limit window now (L ip)"
  using assms by (auto simp: stands_for_def check_def admit_def Let_def)

lemma check_stands_for:
  assumes sf: "stands_for window t m L" and le: "t \<le> now"
  shows "stands_for window now (snd (check limit window ip now m)) (log_add limit window ip now L)"
  unfolding stands_for_def
proof (intro allI impI)
  fix ip' later assume later: "now \<le> later"
  let ?f = "\<lambda>n. filter (\<lambda>t. n - t < window)"
  have same: "?f n (times_of i m) = ?f n (L i)" if "now \<le> n" for i n
    using sf le that by (simp add: stands_for_def)
  have pruned: "?f later (?f now (times_of i m)) = ?f later (L i)" for i
    using filter_window_mono [OF later] same [OF later] by metis
  have "fst (check limit window ip now m) = admit limit window now (L ip)"
    by (rule check_admit [OF sf le])
  then show "?f later (times_of ip' (snd (check limit window ip now m))) =
      ?f later (log_add limit window ip now L ip')"
    using pruned [of ip] same [OF later, of ip']
    by (auto simp: check_def log_add_def Let_def times_of_update simp del: filter_filter)
qed

lemma allow_register_check:
  "fst (allow_register ip now l) = fst (check 5 (secs 3600) ip now (rl_register l))"
  "rl_register (snd (allow_register ip now l)) = snd (check 5 (secs 3600) ip now (rl_register l))"
  "rl_lookup (snd (allow_register ip now l)) = rl_lookup l"
  by (simp_all add: allow_register_def split: prod.splits)

lemma allow_lookup_check:
  "fst (allow_lookup ip now l) = fst (check 60 (secs 60) ip now (rl_lookup l))"
  "rl_lookup (snd (allow_lookup ip now l)) = snd (check 60 (secs 60) ip now (rl_lookup l))"
  "rl_register (snd (allow_lookup ip now l)) = rl_register l"
  by (simp_all add: allow_lookup_def split: prod.splits)

interpretation register_limiter: window_limiter 5 "secs 3600" allow_register
  "\<lambda>t l. stands_for (secs 3600) t (rl_register l)" new_limiter
  by unfold_locales
    (auto simp: allow_register_check check_admit check_stands_for new_limiter_def stands_for_empty)

interpretation lookup_limiter: window_limiter 60 "secs 60" allow_lookup
  "\<lambda>t l. stands_for (secs 60) t (rl_lookup l)" new_limiter
  by unfold_locales
    (auto simp: allow_lookup_check check_admit check_stands_for new_limiter_def stands_for_empty)

text \<open>C14. The pruned tables decide exactly as the full log of admitted requests of every address would: 5 per hour for \<open>/register\<close>, 60 per minute for \<open>/lookup\<close>.\<close>

theorem limiter_as_log:
  assumes "sorted (map snd cs)"
  shows "allow_run allow_register cs new_limiter = admit_run 5 (secs 3600) cs (\<lambda>_. []) \<and>
    allow_run allow_lookup cs new_limiter = admit_run 60 (secs 60) cs (\<lambda>_. [])"
  using register_limiter.start_run [OF assms] lookup_limiter.start_run [OF assms] by blast

theorem limiter_as_log_witness:
  "allow_run allow_register [(V4 1, 0), (V4 1, 1)] new_limiter = [True, True]"
  using limiter_as_log [of "[(V4 1, 0), (V4 1, 1)]"] by (simp add: admit_def log_add_def secs_def)



end
