(* ===== verification/State.thy ===== *)
theory State
  imports Sql Config Rate_Limit
begin

text \<open>
  The shared state of the server (\<open>src/state.rs\<close>): \<open>AppState\<close> with the database, the limiter, the
  two relay tables and the group connections, and beside it what the operating system holds for
  the process: the heap objects behind the \<open>Arc\<close>s and channels (\<open>arcs\<close>, \<open>queues\<close>), the WebSocket
  tasks handed to \<open>on_upgrade\<close> (\<open>spawned\<close>), the two clocks, and the outcome of the next statements
  (\<open>faults\<close>: \<open>True\<close> is an error of the engine; an empty list is an engine that works).

  \<open>sql\<close> runs one statement as an atomic section: on a fault the database is unchanged.
\<close>

datatype ws_msg = Text string | Binary bytes | Ping bytes | Pong bytes | Close

text \<open>\<open>InitializedRelay\<close>: created over HTTP, no WebSocket yet.\<close>

record initialized_relay =
  ir_token_a_hash :: string
  ir_token_b :: string
  ir_token_b_hash :: string
  ir_creator_id :: nat
  ir_created_at :: nat

text \<open>
  \<open>PendingRelay\<close>. The fields behind the \<open>Arc\<close> that change are in the heap object \<open>channels\<close>: the
  two unbounded channels (what was sent and not yet received), whether each receiver is still in
  its \<open>Mutex<Option<..>>\<close>, and the permit stored in \<open>joiner_ready\<close>.
\<close>

record pending_relay =
  pr_token_b_hash :: string
  pr_arc :: nat
  pr_created_at :: nat

record channels =
  a_to_b :: "ws_msg list"
  a_to_b_rx :: bool
  b_to_a :: "ws_msg list"
  b_to_a_rx :: bool
  joiner_ready :: bool

definition new_channels :: channels where
  "new_channels = \<lparr>a_to_b = [], a_to_b_rx = True, b_to_a = [], b_to_a_rx = True, joiner_ready = False\<rparr>"

text \<open>\<open>UnboundedSender::send\<close> and \<open>UnboundedReceiver::recv\<close> on the two channels of a session.\<close>

definition send_a_to_b :: "ws_msg \<Rightarrow> channels \<Rightarrow> channels" where
  "send_a_to_b m c = c\<lparr>a_to_b := a_to_b c @ [m]\<rparr>"

definition send_b_to_a :: "ws_msg \<Rightarrow> channels \<Rightarrow> channels" where
  "send_b_to_a m c = c\<lparr>b_to_a := b_to_a c @ [m]\<rparr>"

definition recv_a_to_b :: "channels \<Rightarrow> (ws_msg \<times> channels) option" where
  "recv_a_to_b c = (case a_to_b c of [] \<Rightarrow> None | m # ms \<Rightarrow> Some (m, c\<lparr>a_to_b := ms\<rparr>))"

definition recv_b_to_a :: "channels \<Rightarrow> (ws_msg \<times> channels) option" where
  "recv_b_to_a c = (case b_to_a c of [] \<Rightarrow> None | m # ms \<Rightarrow> Some (m, c\<lparr>b_to_a := ms\<rparr>))"

interpretation a_to_b_fifo: fifo a_to_b send_a_to_b recv_a_to_b
  by unfold_locales (auto simp: send_a_to_b_def recv_a_to_b_def split: list.splits)

interpretation b_to_a_fifo: fifo b_to_a send_b_to_a recv_b_to_a
  by unfold_locales (auto simp: send_b_to_a_def recv_b_to_a_def split: list.splits)

datatype ws_task =
    CreatorWs nat string u64
  | JoinerWs nat
  | GroupWs string string

record app_state =
  pool :: db
  config :: config
  mode :: string
  min_version :: string
  limiter :: rate_limiter
  relay_init :: "(string, initialized_relay) hmap"
  relay_pending :: "(string, pending_relay) hmap"
  group_conns :: "(string, nat) hmap"
  arcs :: "nat \<Rightarrow> channels"
  next_arc :: nat
  queues :: "nat \<Rightarrow> string list"
  next_queue :: nat
  spawned :: "ws_task list"
  utc_now :: nat
  mono_now :: nat
  faults :: "bool list"

text \<open>\<open>AppState::new\<close>, over a migrated database.\<close>

definition initial_version :: "config \<Rightarrow> string" where
  "initial_version c =
     (let v = min_client_version (cfg_compatibility c) in if v = ''latest'' then ''0.0.0'' else v)"

definition new_state :: "db \<Rightarrow> config \<Rightarrow> string \<Rightarrow> app_state" where
  "new_state d c m =
     \<lparr>pool = d, config = c, mode = m, min_version = initial_version c, limiter = new_limiter,
      relay_init = [], relay_pending = [], group_conns = [], arcs = (\<lambda>_. new_channels), next_arc = 0,
      queues = (\<lambda>_. []), next_queue = 0, spawned = [], utc_now = 0, mono_now = 0, faults = []\<rparr>"

type_synonym 'a handler = "(app_state, exn + 'a) proc"

definition sql_now :: "'v ext \<Rightarrow> app_state \<Rightarrow> string" where
  "sql_now E s = sql_datetime E (utc_now s)"

definition sql :: "(app_state \<Rightarrow> 'a stmt) \<Rightarrow> 'a handler" where
  "sql f = atomic (\<lambda>s.
     if faults s \<noteq> [] \<and> hd (faults s) then (Inl (Fail (Db Engine)), s\<lparr>faults := tl (faults s)\<rparr>)
     else (case f s (pool s) of (r, d) \<Rightarrow>
       (map_sum (Fail \<circ> Db) id r, s\<lparr>pool := d, faults := tl (faults s)\<rparr>)))"

text \<open>\<open>unwrap_or\<close>: an error of the API becomes a value; a panic does not.\<close>

definition unwrap_or :: "'a \<Rightarrow> 'a handler \<Rightarrow> 'a handler" where
  "unwrap_or a p = pmap (\<lambda>r. case r of Inl (Fail e) \<Rightarrow> Inr a | _ \<Rightarrow> r) p"

definition map_db_err :: "(sqlx_error \<Rightarrow> app_error) \<Rightarrow> 'a handler \<Rightarrow> 'a handler" where
  "map_db_err h p = pmap (\<lambda>r. case r of Inl (Fail (Db e)) \<Rightarrow> Inl (Fail (h e)) | _ \<Rightarrow> r) p"

definition fail_with :: "app_error \<Rightarrow> 'a handler" where
  "fail_with e = throw (Fail e)"

definition require :: "bool \<Rightarrow> app_error \<Rightarrow> unit handler" where
  "require b e = ensure b (Fail e)"

section \<open>Running statements\<close>

text \<open>With a working engine a statement is just its effect on the database.\<close>

lemma run_sql_ok:
  "faults s = [] \<Longrightarrow> run (sql f) s =
     (map_sum (Fail \<circ> Db) id (fst (f s (pool s))), s\<lparr>pool := snd (f s (pool s))\<rparr>)"
  by (simp add: sql_def run_simps split: prod.splits)

lemma run_sql_query:
  "faults s = [] \<Longrightarrow> run (sql (\<lambda>s'. query (f s'))) s = (Inr (f s (pool s)), s)"
  by (simp add: run_sql_ok query_def)

lemma run_query:
  "run (sql (\<lambda>s'. query (f s'))) s =
     (if faults s \<noteq> [] \<and> hd (faults s) then Inl (Fail (Db Engine)) else Inr (f s (pool s)),
      s\<lparr>faults := tl (faults s)\<rparr>)"
  by (simp add: sql_def run_simps query_def)

lemma run_require [run_simps]: "run (require b e) s = (if b then Inr () else Inl (Fail e), s)"
  by (simp add: require_def run_simps)

lemma run_fail_with [run_simps]: "run (fail_with e) s = (Inl (Fail e), s)"
  by (simp add: fail_with_def run_simps)

lemma run_unwrap_or [run_simps]:
  "run (unwrap_or a p) s = (case run p s of (r, s') \<Rightarrow> (case r of Inl (Fail e) \<Rightarrow> Inr a | _ \<Rightarrow> r, s'))"
  by (simp add: unwrap_or_def run_simps)

lemma run_map_db_err [run_simps]:
  "run (map_db_err h p) s = (case run p s of (r, s') \<Rightarrow> (case r of Inl (Fail (Db e)) \<Rightarrow> Inl (Fail (h e)) | _ \<Rightarrow> r, s'))"
  by (simp add: map_db_err_def run_simps)

section \<open>Safety of statements\<close>

lemma safe_sql:
  assumes "\<And>s. I s \<Longrightarrow> I (s\<lparr>faults := tl (faults s)\<rparr>)"
    and "\<And>s. I s \<Longrightarrow> I (s\<lparr>pool := snd (f s (pool s)), faults := tl (faults s)\<rparr>)"
  shows "safe I (sql f)"
  unfolding sql_def by (rule safe_atomic) (simp add: assms case_prod_beta)

text \<open>A property of the database alone, and a property that does not look at it.\<close>

lemma safe_sql_db: "(\<And>s d. P d \<Longrightarrow> P (snd (f s d))) \<Longrightarrow> safe (\<lambda>s. P (pool s)) (sql f)"
  by (rule safe_sql) auto

lemma safe_sql_frame:
  "(\<And>s d fs. I s \<Longrightarrow> I (s\<lparr>pool := d, faults := fs\<rparr>)) \<Longrightarrow> safe I (sql f)"
proof (rule safe_sql)
  fix s assume *: "\<And>s d fs. I s \<Longrightarrow> I (s\<lparr>pool := d, faults := fs\<rparr>)" and "I s"
  then have "I (s\<lparr>pool := pool s, faults := tl (faults s)\<rparr>)" by blast
  then show "I (s\<lparr>faults := tl (faults s)\<rparr>)" by simp
qed auto

lemma safe_require [safe_rules]: "safe I (require b e)"
  by (simp add: require_def safe_rules)

lemma safe_fail_with [safe_rules]: "safe I (fail_with e)"
  by (simp add: fail_with_def safe_rules)

lemma safe_unwrap_or [safe_rules]: "safe I p \<Longrightarrow> safe I (unwrap_or a p)"
  by (simp add: unwrap_or_def safe_rules)

lemma safe_map_db_err [safe_rules]: "safe I p \<Longrightarrow> safe I (map_db_err h p)"
  by (simp add: map_db_err_def safe_rules)

abbreviation pool_ok :: "app_state \<Rightarrow> bool" where
  "pool_ok s \<equiv> db_ok (pool s)"

lemma pool_ok_sql [safe_rules]: "(\<And>s d. db_ok d \<Longrightarrow> db_ok (snd (f s d))) \<Longrightarrow> safe pool_ok (sql f)"
  by (rule safe_sql_db)

end
