(* ===== verification/Auth.thy ===== *)
theory Auth
  imports State
begin

text \<open>
  Bearer tokens (\<open>src/auth.rs\<close>, \<open>resolve_token\<close> of \<open>src/discovery.rs\<close> and \<open>resolve_member\<close> of
  \<open>src/group.rs\<close>). A token is shown to its owner once; the database keeps its SHA-256 hash. The
  random bytes of \<open>generate_token\<close> are an argument.

  The locale \<open>authenticator\<close> is the contract between the two resolvers and the handlers: a request
  without a valid header is refused, and resolving changes nothing.
\<close>

definition generate_token :: "'v ext \<Rightarrow> bytes \<Rightarrow> string" where
  "generate_token E rnd = ''naleys_'' @ hex_encode E rnd"

definition hash_token :: "'v ext \<Rightarrow> string \<Rightarrow> string" where
  "hash_token E token = hex_encode E (sha256 E (as_bytes token))"

text \<open>A header map: lower-case names, values as bytes. \<open>to_str\<close> accepts visible ASCII and tabs.\<close>

type_synonym headers = "(string \<times> string) list"

definition to_str :: "string \<Rightarrow> string option" where
  "to_str v = (if \<forall>c \<in> set v. (32 \<le> (of_char c :: nat) \<and> (of_char c :: nat) < 127) \<or> (of_char c :: nat) = 9
     then Some v else None)"

definition extract_bearer :: "headers \<Rightarrow> app_error + string" where
  "extract_bearer hs =
     (case Option.bind (map_of hs ''authorization'') to_str of
        None \<Rightarrow> Inl Unauthorized
      | Some auth \<Rightarrow> (case strip_prefix ''Bearer '' auth of None \<Rightarrow> Inl Unauthorized | Some t \<Rightarrow> Inr t))"

definition bearer :: "string \<Rightarrow> headers" where
  "bearer t = [(''authorization'', ''Bearer '' @ t)]"

definition resolve_token :: "'v ext \<Rightarrow> headers \<Rightarrow> nat handler" where
  "resolve_token E hs =
     (case extract_bearer hs of
        Inl e \<Rightarrow> fail_with e
      | Inr raw \<Rightarrow>
          pbind (sql (\<lambda>s. select_token (hash_token E raw) (sql_now E s))) (\<lambda>row.
          case row of None \<Rightarrow> fail_with Unauthorized | Some uid \<Rightarrow> pure uid))"

definition resolve_member :: "'v ext \<Rightarrow> headers \<Rightarrow> (string \<times> string) handler" where
  "resolve_member E hs =
     (case extract_bearer hs of
        Inl e \<Rightarrow> fail_with e
      | Inr raw \<Rightarrow>
          pbind (sql (\<lambda>s. select_member (hash_token E raw))) (\<lambda>row.
          case row of None \<Rightarrow> fail_with Unauthorized | Some m \<Rightarrow> pure m))"

section \<open>Headers\<close>

lemma extract_bearer_Inl: "extract_bearer hs = Inl e \<Longrightarrow> e = Unauthorized"
  by (auto simp: extract_bearer_def split: option.splits)

lemma extract_bearer_iff:
  "extract_bearer hs = Inr t \<longleftrightarrow>
     (\<exists>v. map_of hs ''authorization'' = Some v \<and> to_str v = Some v \<and> v = ''Bearer '' @ t)"
proof -
  have "to_str v = Some w \<Longrightarrow> w = v" for v w by (auto simp: to_str_def split: if_splits)
  then show ?thesis
    unfolding extract_bearer_def
    by (auto simp: strip_prefix_iff simp del: strip_prefix.simps split: option.splits bind_splits) fastforce+
qed

section \<open>Resolving\<close>

lemma run_resolve_token:
  assumes "faults s = []"
  shows "run (resolve_token E hs) s =
     (case extract_bearer hs of
        Inl e \<Rightarrow> (Inl (Fail Unauthorized), s)
      | Inr raw \<Rightarrow>
          (case List.find (\<lambda>t. t_hash t = hash_token E raw \<and> token_live (sql_now E s) t) (tokens (pool s)) of
             None \<Rightarrow> (Inl (Fail Unauthorized), s)
           | Some t \<Rightarrow> (Inr (t_user t), s)))"
  using assms
  by (auto simp: resolve_token_def run_simps run_sql_query select_token_def dest: extract_bearer_Inl
      split: sum.splits option.splits)

lemma run_resolve_member:
  assumes "faults s = []"
  shows "run (resolve_member E hs) s =
     (case extract_bearer hs of
        Inl e \<Rightarrow> (Inl (Fail Unauthorized), s)
      | Inr raw \<Rightarrow>
          (case List.find (\<lambda>m. m_hash m = hash_token E raw) (members (pool s)) of
             None \<Rightarrow> (Inl (Fail Unauthorized), s)
           | Some m \<Rightarrow> (Inr (m_name m, m_role m), s)))"
  using assms
  by (auto simp: resolve_member_def run_simps run_sql_query select_member_def dest: extract_bearer_Inl
      split: sum.splits option.splits)

locale authenticator =
  fixes auth :: "headers \<Rightarrow> 'u handler"
  assumes no_bearer: "extract_bearer hs = Inl e \<Longrightarrow> run (auth hs) s = (Inl (Fail Unauthorized), s)"
    and read_only: "snd (run (auth hs) s) = s\<lparr>faults := faults (snd (run (auth hs) s))\<rparr>"
    and working: "faults s = [] \<Longrightarrow> snd (run (auth hs) s) = s"
begin

lemma refused_without_bearer:
  "extract_bearer hs = Inl e \<Longrightarrow> run (pbind (auth hs) k) s = (Inl (Fail Unauthorized), s)"
  by (simp add: run_simps no_bearer)

text \<open>A refused request has no effect, whatever the rest of the handler would do.\<close>

lemma refused:
  assumes "fst (run (auth hs) s) = Inl e"
  shows "\<exists>fs. run (pbind (auth hs) k) s = (Inl e, s\<lparr>faults := fs\<rparr>)"
proof -
  obtain fs where "run (auth hs) s = (Inl e, s\<lparr>faults := fs\<rparr>)"
    using assms read_only by (metis prod.collapse)
  then show ?thesis by (auto simp: run_pbind)
qed

lemma accepted:
  "faults s = [] \<Longrightarrow> fst (run (auth hs) s) = Inr u \<Longrightarrow> run (pbind (auth hs) k) s = run (k u) s"
  using working [of s hs] by (cases "run (auth hs) s") (simp add: run_simps)

end

lemma resolve_token_read_only:
  "snd (run (resolve_token E hs) s) = s\<lparr>faults := faults (snd (run (resolve_token E hs) s))\<rparr>"
  by (simp add: resolve_token_def run_simps select_token_def run_query split: sum.split option.split)

lemma resolve_member_read_only:
  "snd (run (resolve_member E hs) s) = s\<lparr>faults := faults (snd (run (resolve_member E hs) s))\<rparr>"
  by (simp add: resolve_member_def run_simps select_member_def run_query split: sum.split option.split)

interpretation user_auth: authenticator "resolve_token E" for E
proof
  show "run (resolve_token E hs) s = (Inl (Fail Unauthorized), s)" if "extract_bearer hs = Inl e" for hs e s
    using that extract_bearer_Inl [OF that] by (simp add: resolve_token_def run_simps)
  show "snd (run (resolve_token E hs) s) = s" if "faults s = []" for hs s
    using that by (simp add: run_resolve_token split: sum.split option.split)
qed (rule resolve_token_read_only)

interpretation member_auth: authenticator "resolve_member E" for E
proof
  show "run (resolve_member E hs) s = (Inl (Fail Unauthorized), s)" if "extract_bearer hs = Inl e" for hs e s
    using that extract_bearer_Inl [OF that] by (simp add: resolve_member_def run_simps)
  show "snd (run (resolve_member E hs) s) = s" if "faults s = []" for hs s
    using that by (simp add: run_resolve_member split: sum.split option.split)
qed (rule resolve_member_read_only)

lemma resolve_token_safe [safe_rules]: "safe pool_ok (resolve_token E hs)"
  unfolding resolve_token_def by (intro safe_rules db_rules)

lemma resolve_member_safe [safe_rules]: "safe pool_ok (resolve_member E hs)"
  unfolding resolve_member_def by (intro safe_rules db_rules)

end
