(* ===== verification/Version.thy ===== *)
theory Version
  imports State
begin

text \<open>
  The minimum client version (\<open>src/version.rs\<close>): the comparison, and the background task that
  follows the latest release. The HTTP exchange is the input of \<open>fetch_latest\<close>: an error, or the
  JSON of the response. \<open>refresh_run\<close> is the loop over the outcomes of successive fetches.
\<close>

definition satisfies :: "'v ext \<Rightarrow> string \<Rightarrow> string \<Rightarrow> bool" where
  "satisfies E client_v min_v =
     (case (semver_parse E client_v, semver_parse E min_v) of
        (Some c, Some m) \<Rightarrow> semver_ge E c m
      | _ \<Rightarrow> True)"

definition fetch_latest :: "string + json \<Rightarrow> string + string" where
  "fetch_latest resp =
     (case resp of
        Inl e \<Rightarrow> Inl e
      | Inr v \<Rightarrow>
          (case as_str (json_index v ''tag_name'') of
             None \<Rightarrow> Inl ''no tag_name in response''
           | Some tag \<Rightarrow> Inr (dropWhile (\<lambda>c. c = CHR ''v'') tag)))"

definition refresh_step :: "string + json \<Rightarrow> app_state \<Rightarrow> app_state" where
  "refresh_step resp s =
     (case fetch_latest resp of Inr ver \<Rightarrow> s\<lparr>min_version := ver\<rparr> | Inl e \<Rightarrow> s)"

fun refresh_run :: "(string + json) list \<Rightarrow> app_state \<Rightarrow> app_state" where
  "refresh_run [] s = s"
| "refresh_run (r # rs) s = refresh_run rs (refresh_step r s)"

text \<open>The last version a run of fetches obtained, if any did.\<close>

fun last_fetched :: "(string + json) list \<Rightarrow> string option" where
  "last_fetched [] = None"
| "last_fetched (r # rs) =
     (case last_fetched rs of
        Some v \<Rightarrow> Some v
      | None \<Rightarrow> (case fetch_latest r of Inr v \<Rightarrow> Some v | Inl e \<Rightarrow> None))"

lemma refresh_run_min_version:
  "min_version (refresh_run rs s) = (case last_fetched rs of None \<Rightarrow> min_version s | Some v \<Rightarrow> v)"
  by (induction rs arbitrary: s) (auto simp: refresh_step_def split: option.split sum.split)

lemma refresh_step_frame: "refresh_step r s = s\<lparr>min_version := min_version (refresh_step r s)\<rparr>"
  by (simp add: refresh_step_def split: sum.split)

lemma refresh_run_frame: "\<exists>v. refresh_run rs s = s\<lparr>min_version := v\<rparr>"
proof (induction rs arbitrary: s)
  case Nil
  have "refresh_run [] s = s\<lparr>min_version := min_version s\<rparr>" by simp
  then show ?case by blast
next
  case (Cons r rs)
  obtain v where "refresh_run rs (refresh_step r s) = (refresh_step r s)\<lparr>min_version := v\<rparr>"
    using Cons.IH by blast
  then have "refresh_run (r # rs) s = s\<lparr>min_version := v\<rparr>"
    using arg_cong [OF refresh_step_frame [of r s], of "\<lambda>t. t\<lparr>min_version := v\<rparr>"] by simp
  then show ?case by blast
qed

end
