(* ===== verification/Discovery.thy ===== *)
theory Discovery
  imports Auth Version
begin

text \<open>
  Discovery mode (\<open>src/discovery.rs\<close>): one definition per handler, in the order of the file, each
  the sequence of its checks, statements and early returns. Random draws (token bytes, the invite
  number) are arguments; clocks are read from the state where the source reads them.
\<close>

section \<open>Requests\<close>

record register_req =
  rq_username :: string
  rq_pubkey :: string
  rq_ip :: string
  rq_port :: u16
  rq_email :: "string option"
  rq_invite_code :: "string option"
  rq_client_version :: "string option"

record update_req =
  up_ip :: string
  up_port :: u16

definition check_ip :: "string \<Rightarrow> unit handler" where
  "check_ip ip = require (parse_ip_addr ip \<noteq> None) (BadRequest ''invalid ip'')"

definition limit_register :: "ip_addr \<Rightarrow> bool handler" where
  "limit_register ip = atomic (\<lambda>s.
     case allow_register ip (mono_now s) (limiter s) of (ok, l) \<Rightarrow> (Inr ok, s\<lparr>limiter := l\<rparr>))"

definition limit_lookup :: "ip_addr \<Rightarrow> bool handler" where
  "limit_lookup ip = atomic (\<lambda>s.
     case allow_lookup ip (mono_now s) (limiter s) of (ok, l) \<Rightarrow> (Inr ok, s\<lparr>limiter := l\<rparr>))"

section \<open>\<open>/info\<close>\<close>

definition pkg_version :: string where "pkg_version = ''0.1.0''"

definition info :: "'v ext \<Rightarrow> response handler" where
  "info E =
     pbind (unwrap_or 0 (sql (\<lambda>s. count_users))) (\<lambda>user_count.
     pbind (unwrap_or 0 (sql (\<lambda>s. count_online (sql_minutes_ago E (utc_now s) 30)))) (\<lambda>online_count.
     reads (\<lambda>s. let c = config s in
       json_response 200
         [(''name'', JStr (srv_name (cfg_server c))),
          (''description'', JStr (srv_description (cfg_server c))),
          (''mode'', JStr (mode s)),
          (''version'', JStr pkg_version),
          (''public'', JBool (srv_public (cfg_server c))),
          (''open'', JBool (reg_open (cfg_registration c))),
          (''require_email'', JBool (require_email (cfg_registration c))),
          (''require_invite'', JBool (require_invite (cfg_registration c))),
          (''min_client_version'', JStr (min_version s)),
          (''relay_enabled'', JBool (relay_enabled (cfg_relay c))),
          (''stats'', JObj [(''users_total'', JInt (int user_count)),
                            (''users_online'', JInt (int online_count))])])))"

section \<open>\<open>/register\<close>\<close>

text \<open>The decimal text of a number (\<open>format!("{}", n)\<close>).\<close>

fun decimal :: "nat \<Rightarrow> string" where
  "decimal n = (if n < 10 then [digit_char n] else decimal (n div 10) @ [digit_char (n mod 10)])"

declare decimal.simps [simp del]

definition length_message :: "registration_config \<Rightarrow> string" where
  "length_message c = ''username length must be '' @ decimal (unat (username_min_length c)) @ ''-'' @
     decimal (unat (username_max_length c))"

text \<open>Each check of the handler ends with \<open>Some\<close> response (an early \<open>return Ok\<close>) or goes on.\<close>

definition check_version :: "'v ext \<Rightarrow> register_req \<Rightarrow> response option handler" where
  "check_version E rq =
     (case rq_client_version rq of
        None \<Rightarrow> pure None
      | Some cv \<Rightarrow>
          pbind (reads min_version) (\<lambda>m.
          pure (if m \<noteq> ''0.0.0'' \<and> \<not> satisfies E cv m
                then Some (json_response 426 [(''error'', JStr ''client_too_old''), (''min_version'', JStr m)])
                else None)))"

definition check_invite :: "config \<Rightarrow> register_req \<Rightarrow> unit handler" where
  "check_invite c rq =
     (if reg_open (cfg_registration c) then pure ()
      else case rq_invite_code rq of
        None \<Rightarrow> fail_with (Forbidden ''registration_closed'')
      | Some code \<Rightarrow>
          pbind (sql (\<lambda>s. select_open_invite code)) (\<lambda>row.
          require (row \<noteq> None) (Forbidden ''invalid_invite'')))"

definition check_username :: "'v ext \<Rightarrow> config \<Rightarrow> register_req \<Rightarrow> unit handler" where
  "check_username E c rq =
     (let rc = cfg_registration c; n = char_count (rq_username rq) in
      pbind (require (\<not> (n < unat (username_min_length rc) \<or> unat (username_max_length rc) < n))
               (BadRequest (length_message rc))) (\<lambda>_.
      case regex_new E (username_regex rc) of
        Inl e \<Rightarrow> fail_with (Internal e)
      | Inr is_match \<Rightarrow> require (is_match (rq_username rq)) (BadRequest ''invalid_username'')))"

definition check_pubkey :: "'v ext \<Rightarrow> register_req \<Rightarrow> unit handler" where
  "check_pubkey E rq =
     (case b64_decode E (rq_pubkey rq) of
        None \<Rightarrow> fail_with (BadRequest ''invalid pubkey: bad base64'')
      | Some key \<Rightarrow> require (length key = 32) (BadRequest ''invalid pubkey: must be 32 bytes''))"

definition check_email :: "config \<Rightarrow> register_req \<Rightarrow> unit handler" where
  "check_email c rq =
     (if require_email (cfg_registration c)
      then (let email = (case rq_email rq of None \<Rightarrow> [] | Some e \<Rightarrow> e) in
            require (\<not> (email = [] \<or> CHR 0x40 \<notin> set email)) (BadRequest ''email required''))
      else pure ())"

definition check_max_users :: "config \<Rightarrow> response option handler" where
  "check_max_users c =
     (if 0 < max_users (cfg_registration c)
      then pbind (sql (\<lambda>s. count_users)) (\<lambda>cnt.
           pure (if unat (max_users (cfg_registration c)) \<le> cnt
                 then Some (json_response 429 [(''error'', JStr ''server_full'')]) else None))
      else pure None)"

text \<open>
  \<open>expires_at\<close>: \<open>Utc::now()\<close> plus the days of the configuration. \<open>checked_add_signed\<close> is \<open>None\<close> out of
  the range of dates, and the \<open>unwrap\<close> then panics.
\<close>

definition expires_at :: "'v ext \<Rightarrow> config \<Rightarrow> string option handler" where
  "expires_at E c =
     (if 0 < ttl_days (cfg_tokens c)
      then atomic (\<lambda>s.
             (case add_days E (utc_now s) (unat (ttl_days (cfg_tokens c))) of
                None \<Rightarrow> Inl Panic
              | Some t \<Rightarrow> Inr (Some (to_rfc3339 E t)), s))
      else pure None)"

definition issue_token :: "'v ext \<Rightarrow> config \<Rightarrow> bytes \<Rightarrow> nat \<Rightarrow> string handler" where
  "issue_token E c rnd uid =
     (let token = generate_token E rnd in
      pbind (expires_at E c) (\<lambda>exp.
      pbind (sql (\<lambda>s. insert_token uid (hash_token E token) exp (sql_now E s))) (\<lambda>_.
      pure token)))"

definition host_text :: "config \<Rightarrow> string" where
  "host_text c = srv_name (cfg_server c) @ '':'' @ decimal (unat (srv_port (cfg_server c)))"

text \<open>The part of \<open>register\<close> after the last check: the four writes and the answer.\<close>

definition register_write :: "'v ext \<Rightarrow> config \<Rightarrow> bytes \<Rightarrow> register_req \<Rightarrow> response handler" where
  "register_write E c rnd rq =
     pbind (sql (\<lambda>s. insert_user (rq_username rq) (to_lowercase E (rq_username rq)) (rq_pubkey rq)
              (rq_email rq) (sql_now E s))) (\<lambda>uid.
     pbind (sql (\<lambda>s. insert_presence uid (rq_ip rq) (unat (rq_port rq)) (sql_now E s))) (\<lambda>_.
     pbind (issue_token E c rnd uid) (\<lambda>token.
     pbind (case rq_invite_code rq of
              None \<Rightarrow> pure ()
            | Some code \<Rightarrow> sql (\<lambda>s. use_invite uid code (sql_now E s))) (\<lambda>_.
     pure (json_response 201
       [(''token'', JStr token), (''username'', JStr (rq_username rq)), (''server'', JStr (host_text c))])))))"

definition unless_response :: "response option \<Rightarrow> response handler \<Rightarrow> response handler" where
  "unless_response early k = (case early of Some r \<Rightarrow> pure r | None \<Rightarrow> k)"

definition register :: "'v ext \<Rightarrow> bytes \<Rightarrow> ip_addr \<Rightarrow> register_req \<Rightarrow> response handler" where
  "register E rnd peer rq =
     pbind (limit_register peer) (\<lambda>ok.
     pbind (require ok TooManyRequests) (\<lambda>_.
     pbind (check_version E rq) (\<lambda>old. unless_response old (
     pbind (reads config) (\<lambda>c.
     pbind (check_invite c rq) (\<lambda>_.
     pbind (check_username E c rq) (\<lambda>_.
     pbind (sql (\<lambda>s. select_user_by_lc (to_lowercase E (rq_username rq)))) (\<lambda>taken.
     pbind (require (taken = None) (Conflict ''username_taken'')) (\<lambda>_.
     pbind (check_pubkey E rq) (\<lambda>_.
     pbind (check_ip (rq_ip rq)) (\<lambda>_.
     pbind (check_email c rq) (\<lambda>_.
     pbind (check_max_users c) (\<lambda>full. unless_response full (
     register_write E c rnd rq))))))))))))))"

section \<open>\<open>/lookup\<close>\<close>

definition lookup :: "'v ext \<Rightarrow> ip_addr \<Rightarrow> string \<Rightarrow> response handler" where
  "lookup E peer username =
     pbind (limit_lookup peer) (\<lambda>ok.
     pbind (require ok TooManyRequests) (\<lambda>_.
     pbind (sql (\<lambda>s. select_lookup (to_lowercase E username))) (\<lambda>row.
     case row of
       None \<Rightarrow> fail_with (NotFound ''not_found'')
     | Some (pubkey, ip, port, last_seen, uname) \<Rightarrow>
         pbind (reads config) (\<lambda>c.
         pbind (unwrap_or False (sql (\<lambda>s. select_online_by_ip
                  (sql_minutes_ago E (utc_now s) (unat (offline_after_minutes (cfg_presence c)))) ip))) (\<lambda>online.
         pure (json_response 200
           [(''username'', JStr uname), (''pubkey'', JStr pubkey), (''ip'', JStr ip),
            (''port'', JInt (int port)), (''online'', JBool online), (''last_seen'', JStr last_seen)]))))))"

section \<open>\<open>/search\<close>\<close>

definition users_json :: "string list \<Rightarrow> response" where
  "users_json names = json_response 200 [(''users'', JArr (map JStr names))]"

definition search :: "'v ext \<Rightarrow> string option \<Rightarrow> response handler" where
  "search E q0 =
     (let q = (case q0 of None \<Rightarrow> [] | Some q \<Rightarrow> q) in
      if q = [] then pure (users_json [])
      else pbind (sql (\<lambda>s. search_users (to_lowercase E q @ ''%''))) (\<lambda>names.
           pure (users_json names)))"

section \<open>\<open>/update\<close>, \<open>/heartbeat\<close>, \<open>/unregister\<close>\<close>

definition ok_json :: response where
  "ok_json = json_response 200 [(''ok'', JBool True)]"

definition update_presence :: "'v ext \<Rightarrow> headers \<Rightarrow> update_req \<Rightarrow> response handler" where
  "update_presence E hs rq =
     pbind (resolve_token E hs) (\<lambda>uid.
     pbind (check_ip (up_ip rq)) (\<lambda>_.
     pbind (sql (\<lambda>s. upsert_presence uid (up_ip rq) (unat (up_port rq)) (sql_now E s))) (\<lambda>_.
     pure ok_json)))"

definition heartbeat :: "'v ext \<Rightarrow> headers \<Rightarrow> response handler" where
  "heartbeat E hs =
     pbind (resolve_token E hs) (\<lambda>uid.
     pbind (sql (\<lambda>s. touch_presence uid (sql_now E s))) (\<lambda>_.
     pure ok_json))"

definition unregister :: "'v ext \<Rightarrow> headers \<Rightarrow> response handler" where
  "unregister E hs =
     pbind (resolve_token E hs) (\<lambda>uid.
     pbind (sql (\<lambda>s. delete_user uid)) (\<lambda>_.
     pure no_content))"

section \<open>\<open>/token/refresh\<close>\<close>

definition token_refresh :: "'v ext \<Rightarrow> bytes \<Rightarrow> headers \<Rightarrow> response handler" where
  "token_refresh E rnd hs =
     pbind (resolve_token E hs) (\<lambda>uid.
     pbind (sql (\<lambda>s. count_tokens uid)) (\<lambda>cnt.
     pbind (reads config) (\<lambda>c.
     pbind (if unat (max_per_user (cfg_tokens c)) \<le> cnt
            then sql (\<lambda>s. delete_oldest_token uid) else pure ()) (\<lambda>_.
     pbind (issue_token E c rnd uid) (\<lambda>token.
     pure (json_response 200 [(''token'', JStr token)]))))))"

section \<open>\<open>/invite/create\<close>\<close>

definition invite_chars :: string where
  "invite_chars = ''ABCDEFGHJKLMNPQRSTUVWXYZ23456789''"

definition invite_part :: "u32 \<Rightarrow> string" where
  "invite_part n =
     map (\<lambda>i. invite_chars ! (unat (and (drop_bit (i * 5) n) 0x1F) mod length invite_chars)) [0..<4]"

definition invite_code :: "u32 \<Rightarrow> string" where
  "invite_code r = invite_part r @ ''-'' @ invite_part (drop_bit 16 r)"

definition invite_create :: "'v ext \<Rightarrow> u32 \<Rightarrow> headers \<Rightarrow> response handler" where
  "invite_create E r hs =
     pbind (resolve_token E hs) (\<lambda>uid.
     pbind (sql (\<lambda>s. insert_invite (invite_code r) uid (sql_now E s))) (\<lambda>_.
     pure (json_response 201 [(''code'', JStr (invite_code r))])))"

section \<open>Every handler keeps the schema at every await\<close>

lemma limit_register_pool [safe_rules]: "safe pool_ok (limit_register ip)"
  unfolding limit_register_def by (rule safe_atomic) (auto split: prod.splits)

lemma limit_lookup_pool [safe_rules]: "safe pool_ok (limit_lookup ip)"
  unfolding limit_lookup_def by (rule safe_atomic) (auto split: prod.splits)

lemma expires_at_pool [safe_rules]: "safe pool_ok (expires_at E c)"
  unfolding expires_at_def by (intro safe_rules safe_atomic) auto

lemma unless_response_safe [safe_rules]: "safe I k \<Longrightarrow> safe I (unless_response early k)"
  unfolding unless_response_def by (intro safe_rules)

lemma info_safe [safe_rules]: "safe pool_ok (info E)"
  unfolding info_def by (intro safe_rules db_rules)

lemma issue_token_safe [safe_rules]: "safe pool_ok (issue_token E c rnd uid)"
  unfolding issue_token_def Let_def by (intro safe_rules db_rules)

lemma register_write_safe [safe_rules]: "safe pool_ok (register_write E c rnd rq)"
  unfolding register_write_def by (intro safe_rules db_rules)

lemma register_safe [safe_rules]: "safe pool_ok (register E rnd peer rq)"
  unfolding register_def check_version_def check_invite_def check_username_def check_pubkey_def
    check_ip_def check_email_def check_max_users_def Let_def
  by (intro safe_rules db_rules)

lemma lookup_safe [safe_rules]: "safe pool_ok (lookup E peer username)"
  unfolding lookup_def by (intro safe_rules db_rules)

lemma search_safe [safe_rules]: "safe pool_ok (search E q)"
  unfolding search_def Let_def by (intro safe_rules db_rules)

lemma update_presence_safe [safe_rules]: "safe pool_ok (update_presence E hs rq)"
  unfolding update_presence_def check_ip_def by (intro safe_rules db_rules)

lemma heartbeat_safe [safe_rules]: "safe pool_ok (heartbeat E hs)"
  unfolding heartbeat_def by (intro safe_rules db_rules)

lemma unregister_safe [safe_rules]: "safe pool_ok (unregister E hs)"
  unfolding unregister_def by (intro safe_rules db_rules)

lemma token_refresh_safe [safe_rules]: "safe pool_ok (token_refresh E rnd hs)"
  unfolding token_refresh_def by (intro safe_rules db_rules)

lemma invite_create_safe [safe_rules]: "safe pool_ok (invite_create E r hs)"
  unfolding invite_create_def by (intro safe_rules db_rules)

end
