(* ===== verification/Samples.thy ===== *)
theory Samples
  imports Discovery
begin

text \<open>
  Concrete functions for the parameters of the model, and a concrete server, for the witnesses:
  a text is its own base64, a hash is the text itself, a date is a ten-digit day number followed by
  the seconds of the day. \<open>sample_ext\<close> satisfies every predicate of documented behaviour.
\<close>

fun digits :: "nat \<Rightarrow> nat \<Rightarrow> string" where
  "digits 0 n = []"
| "digits (Suc w) n = digits w (n div 10) @ [digit_char (n mod 10)]"

definition sec_of_day :: "nat \<Rightarrow> nat" where
  "sec_of_day t = t div 1000000000 mod 86400"

definition sample_date :: "nat \<Rightarrow> string" where
  "sample_date d = digits 10 d"

definition sample_sql :: "nat \<Rightarrow> string" where
  "sample_sql t = sample_date (day_of t) @ '' '' @ digits 5 (sec_of_day t)"

definition hex_digit :: "nat \<Rightarrow> char" where
  "hex_digit n = ''0123456789abcdef'' ! n"

definition hex_byte :: "8 word \<Rightarrow> string" where
  "hex_byte b = [hex_digit (unat b div 16), hex_digit (unat b mod 16)]"

definition sample_ext :: "nat ext" where
  "sample_ext =
     \<lparr>sha256 = (\<lambda>b. b), hex_encode = (\<lambda>b. concat (map hex_byte b)),
      b64_encode = map (\<lambda>b. char_of (unat b)), b64_decode = (\<lambda>s. Some (as_bytes s)),
      b64_error = (\<lambda>s. ''error''),
      regex_new = (\<lambda>r. Inr (\<lambda>s. s \<noteq> [])),
      semver_parse = (\<lambda>s. if s = [] then None else Some (length s)), semver_ge = (\<lambda>a b. b \<le> a),
      to_lowercase = map ascii_lower,
      to_rfc3339 = (\<lambda>t. sample_date (day_of t) @ ''T'' @ digits 5 (sec_of_day t)),
      sql_datetime = sample_sql,
      sql_minutes_ago = (\<lambda>t n. if n * 60000000000 \<le> t then Some (sample_sql (t - n * 60000000000)) else None),
      add_days = (\<lambda>t n. Some (t + n * 86400000000000)),
      json_parse = (\<lambda>s. Some (JObj [(''type'', JStr ''msg''), (''data'', JStr s)])),
      json_print = (\<lambda>v. case as_str (json_index v ''data'') of None \<Rightarrow> [] | Some s \<Rightarrow> s),
      sqlx_text = (\<lambda>e. ''error''), uuid_text = (\<lambda>b. concat (map hex_byte b)),
      dh_public = (\<lambda>sk. sk), dh_shared = (\<lambda>sk pk. map2 (+) sk pk),
      hkdf_expand = (\<lambda>ikm info n. Inr (take n (ikm @ replicate n 0))),
      aes_encrypt = (\<lambda>k nonce p. Inr (p @ replicate 16 0))\<rparr>"

section \<open>The samples behave as documented\<close>

lemma length_digits [simp]: "length (digits w n) = w"
  by (induction w arbitrary: n) auto

lemma digit_char_less: "m < 10 \<Longrightarrow> n < 10 \<Longrightarrow> digit_char m < digit_char n \<longleftrightarrow> m < n"
  by (simp add: less_char_def)

lemma less_by_digits: "(m :: nat) < n \<longleftrightarrow> m div k < n div k \<or> m div k = n div k \<and> m mod k < n mod k"
proof (cases "m div k" "n div k" rule: linorder_cases)
  case less
  then show ?thesis by (metis div_le_mono not_le)
next
  case equal
  then show ?thesis by (metis add_less_cancel_left div_mult_mod_eq less_irrefl)
next
  case greater
  then show ?thesis by (metis div_le_mono less_imp_le not_le)
qed

lemma digits_less: "m < 10 ^ w \<Longrightarrow> n < 10 ^ w \<Longrightarrow> digits w m < digits w n \<longleftrightarrow> m < n"
proof (induction w arbitrary: m n)
  case 0
  then show ?case by simp
next
  case (Suc w)
  have lt: "m div 10 < 10 ^ w" "n div 10 < 10 ^ w" using Suc.prems by auto
  have eq: "digits w (m div 10) = digits w (n div 10) \<longleftrightarrow> m div 10 = n div 10"
    using Suc.IH [OF lt] Suc.IH [OF lt(2,1)] by (metis less_irrefl linorder_neqE_nat)
  have "digits (Suc w) m < digits (Suc w) n \<longleftrightarrow>
      digits w (m div 10) < digits w (n div 10) \<or>
      digits w (m div 10) = digits w (n div 10) \<and> [digit_char (m mod 10)] < [digit_char (n mod 10)]"
    by (simp only: digits.simps list_less_append_eq_length length_digits)
  also have "\<dots> \<longleftrightarrow> m div 10 < n div 10 \<or> m div 10 = n div 10 \<and> m mod 10 < n mod 10"
    unfolding Suc.IH [OF lt] eq by (simp add: digit_char_less)
  also have "\<dots> \<longleftrightarrow> m < n" by (rule less_by_digits [symmetric])
  finally show ?case .
qed

lemma digits_eq: "m < 10 ^ w \<Longrightarrow> n < 10 ^ w \<Longrightarrow> digits w m = digits w n \<longleftrightarrow> m = n"
  using digits_less [of m w n] digits_less [of n w m] by (metis less_irrefl linorder_neqE_nat)

lemma sample_calendar: "calendar_text sample_date"
  by (simp add: calendar_text_def sample_date_def last_day_def digits_less)

lemma sample_clock_texts: "clock_texts sample_ext sample_date"
  using sample_calendar by (simp add: clock_texts_def sample_ext_def sample_sql_def)

lemma sec_of_day_less: "sec_of_day t < 10 ^ 5"
proof -
  have "sec_of_day t < 86400" by (simp add: sec_of_day_def)
  then show ?thesis by simp
qed

lemma sample_clock_ordered: "sql_clock_ordered sample_ext"
proof -
  have "sample_sql s < sample_sql t \<longleftrightarrow> s div 1000000000 < t div 1000000000"
    if "day_of s \<le> last_day" "day_of t \<le> last_day" for s t
  proof -
    have bd: "day_of s < 10 ^ 10" "day_of t < 10 ^ 10" using that by (simp_all add: last_day_def)
    have "sample_sql s < sample_sql t \<longleftrightarrow>
        day_of s < day_of t \<or> day_of s = day_of t \<and> sec_of_day s < sec_of_day t"
      by (simp add: sample_sql_def sample_date_def list_less_append_eq_length
          digits_less [OF bd] digits_eq [OF bd] digits_less [OF sec_of_day_less sec_of_day_less])
    also have "\<dots> \<longleftrightarrow> s div 1000000000 < t div 1000000000"
    proof -
      have "day_of u = u div 1000000000 div 86400" for u
        by (simp add: day_of_def div_mult2_eq [symmetric] mult.commute)
      then show ?thesis
        unfolding sec_of_day_def less_by_digits [of "s div 1000000000" "t div 1000000000" 86400] by simp
    qed
    finally show ?thesis .
  qed
  then show ?thesis by (simp add: sql_clock_ordered_def sample_ext_def)
qed

lemma sample_minutes_ok: "sql_minutes_ok sample_ext"
  by (simp add: sql_minutes_ok_def sample_ext_def)

lemma hex_digit_set: "n < 16 \<Longrightarrow> hex_digit n \<in> set ''0123456789abcdef''"
  unfolding hex_digit_def by (rule nth_mem) simp

lemma sample_hex_ok: "hex_ok sample_ext"
proof -
  have "set (hex_byte b) \<subseteq> set ''0123456789abcdef''" for b
  proof -
    have "unat b < 256" using unsigned_less [where 'a = nat, of b] by simp
    then have "unat b div 16 < 16" "unat b mod 16 < 16" by auto
    then show ?thesis using hex_digit_set unfolding hex_byte_def by auto
  qed
  moreover have "length (concat (map hex_byte b)) = 2 * length b" for b
    by (induction b) (auto simp: hex_byte_def)
  ultimately show ?thesis unfolding hex_ok_def sample_ext_def by fastforce
qed

lemma sample_base64_ok: "base64_ok sample_ext"
proof -
  have "(of_nat (of_char (char_of (unat b) :: char)) :: 8 word) = b" for b :: "8 word"
  proof -
    have "unat b < 256" using unsigned_less [where 'a = nat, of b] by simp
    then show ?thesis by simp
  qed
  then show ?thesis by (simp add: base64_ok_def sample_ext_def as_bytes_def comp_def)
qed

lemma sample_lowercase_ok: "lowercase_ok sample_ext"
  by (simp add: lowercase_ok_def sample_ext_def)

section \<open>A server\<close>

definition sample_config :: config where
  "sample_config =
     \<lparr>cfg_server = \<lparr>srv_port = 47822, srv_name = ''s'', srv_description = [], srv_public = True\<rparr>,
      cfg_registration = \<lparr>reg_open = True, require_email = False, require_invite = False, max_users = 0,
        username_min_length = 3, username_max_length = 32, username_regex = default_username_regex\<rparr>,
      cfg_tokens = \<lparr>ttl_days = 0, max_per_user = 3\<rparr>,
      cfg_storage = \<lparr>sto_driver = default_driver, sto_path = default_db_path, sto_url = []\<rparr>,
      cfg_presence = \<lparr>offline_after_minutes = 30, ip_update_interval_seconds = 60\<rparr>,
      cfg_compatibility = \<lparr>min_client_version = ''latest''\<rparr>,
      cfg_relay = relay_default, cfg_group = group_default\<rparr>"

definition sample_server :: app_state where
  "sample_server = new_state empty_db sample_config ''discovery''"

definition sample_key :: string where
  "sample_key = replicate 32 (CHR ''k'')"

definition sample_request :: "string \<Rightarrow> register_req" where
  "sample_request name =
     \<lparr>rq_username = name, rq_pubkey = sample_key, rq_ip = show_v4 1 2 3 4, rq_port = 47821, rq_email = None,
      rq_invite_code = None, rq_client_version = None\<rparr>"

definition sample_rnd :: bytes where
  "sample_rnd = replicate 32 7"

lemma sample_server_simps:
  "faults sample_server = []" "pool sample_server = empty_db" "config sample_server = sample_config"
  "limiter sample_server = new_limiter" "min_version sample_server = ''0.0.0''"
  "relay_init sample_server = []" "relay_pending sample_server = []" "group_conns sample_server = []"
  "utc_now sample_server = 0" "mono_now sample_server = 0" "spawned sample_server = []"
  by (simp_all add: sample_server_def new_state_def initial_version_def sample_config_def)

lemma sample_limiter: "allow_register ip t new_limiter = (True, \<lparr>rl_register = [(ip, [t])], rl_lookup = []\<rparr>)"
  by (simp add: allow_register_def check_def new_limiter_def times_of_def secs_def)

lemma sample_lookup_limiter: "allow_lookup ip t new_limiter = (True, \<lparr>rl_register = [], rl_lookup = [(ip, [t])]\<rparr>)"
  by (simp add: allow_lookup_def check_def new_limiter_def times_of_def secs_def)

text \<open>The server with two accounts behind one address, a token that expires today and a spent invite.\<close>

definition sample_token :: string where
  "sample_token = generate_token sample_ext sample_rnd"

definition sample_token_row :: token_row where
  "sample_token_row = \<lparr>t_id = 1, t_user = 1, t_hash = hash_token sample_ext sample_token, t_created = [],
     t_expires = Some (to_rfc3339 sample_ext 0)\<rparr>"

definition sample_user :: "nat \<Rightarrow> string \<Rightarrow> user_row" where
  "sample_user i name = \<lparr>u_id = i, u_name = name, u_lc = name, u_pubkey = sample_key, u_email = None, u_created = []\<rparr>"

definition sample_presence :: "nat \<Rightarrow> presence_row" where
  "sample_presence i = \<lparr>p_user = i, p_ip = show_v4 1 2 3 4, p_port = 47821, p_seen = sql_datetime sample_ext 0\<rparr>"

definition sample_invite :: invite_row where
  "sample_invite = \<lparr>i_code = ''I'', i_by = None, i_used = Some 1, i_created = [], i_used_at = Some []\<rparr>"

definition sample_db :: db where
  "sample_db = empty_db\<lparr>users := [sample_user 1 ''vasya'', sample_user 2 ''petya''], user_seq := 2,
     presence := [sample_presence 1, sample_presence 2], tokens := [sample_token_row], token_seq := 1,
     invites := [sample_invite]\<rparr>"

definition sample_home :: app_state where
  "sample_home = sample_server\<lparr>pool := sample_db\<rparr>"

lemma sample_home_simps [simp]:
  "faults sample_home = []" "pool sample_home = sample_db" "config sample_home = sample_config"
  "limiter sample_home = new_limiter" "utc_now sample_home = 0" "mono_now sample_home = 0"
  by (simp_all add: sample_home_def sample_server_simps)

lemma sample_db_simps:
  "users sample_db = [sample_user 1 ''vasya'', sample_user 2 ''petya'']" "user_seq sample_db = 2"
  "presence sample_db = [sample_presence 1, sample_presence 2]" "tokens sample_db = [sample_token_row]"
  "invites sample_db = [sample_invite]"
  by (simp_all add: sample_db_def)

lemma sample_db_ok: "db_ok sample_db"
  by (simp add: db_ok_def table_ok_defs sample_db_def empty_db_def user_ids_def sample_user_def
      sample_presence_def sample_token_row_def sample_invite_def)

lemma length_sample_hash: "length (hash_token sample_ext (generate_token sample_ext rnd)) = 14 + 4 * length rnd"
proof -
  have hex: "length (hex_encode sample_ext b) = 2 * length b" for b using sample_hex_ok by (simp add: hex_ok_def)
  have "sha256 sample_ext b = b" for b by (simp add: sample_ext_def)
  then show ?thesis by (simp add: hash_token_def hex as_bytes_def generate_token_def)
qed

text \<open>A draw of another length than the stored one makes a token that is not stored.\<close>

lemma sample_fresh: "length rnd \<noteq> 32 \<Longrightarrow> hash_token sample_ext (generate_token sample_ext rnd) \<notin> t_hash ` set (tokens sample_db)"
  using length_sample_hash [of rnd] length_sample_hash [of sample_rnd]
  by (auto simp: sample_db_simps sample_token_row_def sample_token_def sample_rnd_def)

lemma empty_db_simps: "users empty_db = []" "user_seq empty_db = 0" "tokens empty_db = []" "invites empty_db = []"
  by (simp_all add: empty_db_def)

lemma sample_lower:
  "ascii_lower CHR ''V'' = CHR ''v''" "ascii_lower CHR ''v'' = CHR ''v''" "ascii_lower CHR ''a'' = CHR ''a''"
  "ascii_lower CHR ''s'' = CHR ''s''" "ascii_lower CHR ''y'' = CHR ''y''" "ascii_lower CHR ''p'' = CHR ''p''"
  "ascii_lower CHR ''e'' = CHR ''e''" "ascii_lower CHR ''t'' = CHR ''t''"
  by code_simp+

lemma sample_lc: "to_lowercase sample_ext s = map ascii_lower s"
  by (simp add: sample_ext_def)

lemma sample_parse: "parse_ip_addr (show_v4 1 2 3 4) \<noteq> None"
  by (simp add: parse_show_v4)

lemma sample_max_tokens: "max_per_user (cfg_tokens sample_config) = 3"
  by (simp add: sample_config_def)

end
