(* ===== verification/Register.thy ===== *)
theory Register
  imports Samples
begin

text \<open>
  What \<open>POST /register\<close> does. \<open>register_checks\<close> is the specification of its checks: the list, in
  order, of what can be wrong with a request and the answer to it. The handler answers with the
  first check that fails and writes nothing but the limiter; when none fails it performs the writes
  of \<open>register_write\<close>, all of them unless the engine fails in between.
\<close>

fun verdict :: "(bool \<times> 'a) list \<Rightarrow> 'a option" where
  "verdict [] = None"
| "verdict ((wrong, answer) # cs) = (if wrong then Some answer else verdict cs)"

definition refuse :: "app_error \<Rightarrow> exn + 'a" where
  "refuse e = Inl (Fail e)"

definition too_old :: "'v ext \<Rightarrow> app_state \<Rightarrow> register_req \<Rightarrow> bool" where
  "too_old E s rq =
     (case rq_client_version rq of
        None \<Rightarrow> False
      | Some cv \<Rightarrow> min_version s \<noteq> ''0.0.0'' \<and> \<not> satisfies E cv (min_version s))"

definition invite_is_open :: "db \<Rightarrow> string \<Rightarrow> bool" where
  "invite_is_open d code = (\<exists>i \<in> set (invites d). i_code i = code \<and> i_used i = None)"

definition bad_email :: "register_req \<Rightarrow> bool" where
  "bad_email rq = (case rq_email rq of None \<Rightarrow> True | Some e \<Rightarrow> CHR 0x40 \<notin> set e)"

definition register_checks :: "'v ext \<Rightarrow> app_state \<Rightarrow> register_req \<Rightarrow> (bool \<times> (exn + response)) list" where
  "register_checks E s rq =
     (let rc = cfg_registration (config s); name = rq_username rq; regex = regex_new E (username_regex rc) in
      [(too_old E s rq,
          Inr (json_response 426 [(''error'', JStr ''client_too_old''), (''min_version'', JStr (min_version s))])),
       (\<not> reg_open rc \<and> rq_invite_code rq = None, refuse (Forbidden ''registration_closed'')),
       (\<not> reg_open rc \<and> \<not> invite_is_open (pool s) (the (rq_invite_code rq)), refuse (Forbidden ''invalid_invite'')),
       (char_count name < unat (username_min_length rc) \<or> unat (username_max_length rc) < char_count name,
          refuse (BadRequest (length_message rc))),
       (isl regex, refuse (Internal (projl regex))),
       (\<not> projr regex name, refuse (BadRequest ''invalid_username'')),
       (to_lowercase E name \<in> u_lc ` set (users (pool s)), refuse (Conflict ''username_taken'')),
       (b64_decode E (rq_pubkey rq) = None, refuse (BadRequest ''invalid pubkey: bad base64'')),
       (length (the (b64_decode E (rq_pubkey rq))) \<noteq> 32, refuse (BadRequest ''invalid pubkey: must be 32 bytes'')),
       (parse_ip_addr (rq_ip rq) = None, refuse (BadRequest ''invalid ip'')),
       (require_email rc \<and> bad_email rq, refuse (BadRequest ''email required'')),
       (0 < max_users rc \<and> unat (max_users rc) \<le> length (users (pool s)),
          Inr (json_response 429 [(''error'', JStr ''server_full'')]))])"

section \<open>Each check of the handler\<close>

lemma run_check_version:
  "run (check_version E rq) s =
     (Inr (if too_old E s rq
           then Some (json_response 426 [(''error'', JStr ''client_too_old''), (''min_version'', JStr (min_version s))])
           else None), s)"
  by (simp add: check_version_def too_old_def run_simps split: option.split)

lemma find_open_invite:
  "List.find (\<lambda>i. i_code i = code \<and> i_used i = None) (invites d) \<noteq> None \<longleftrightarrow> invite_is_open d code"
  by (auto simp: invite_is_open_def find_None_iff)

lemma run_check_invite:
  "faults s = [] \<Longrightarrow> run (check_invite (config s) rq) s =
     (if \<not> reg_open (cfg_registration (config s)) \<and> rq_invite_code rq = None
      then (refuse (Forbidden ''registration_closed''), s)
      else if \<not> reg_open (cfg_registration (config s)) \<and> \<not> invite_is_open (pool s) (the (rq_invite_code rq))
      then (refuse (Forbidden ''invalid_invite''), s) else (Inr (), s))"
  using find_open_invite [of _ "pool s"]
  by (auto simp: check_invite_def run_simps run_sql_query select_open_invite_def refuse_def split: option.split)


lemma run_check_username:
  "run (check_username E c rq) s =
     (let rc = cfg_registration c; n = char_count (rq_username rq); re = regex_new E (username_regex rc) in
      if n < unat (username_min_length rc) \<or> unat (username_max_length rc) < n
      then (refuse (BadRequest (length_message rc)), s)
      else if isl re then (refuse (Internal (projl re)), s)
      else if \<not> projr re (rq_username rq) then (refuse (BadRequest ''invalid_username''), s)
      else (Inr (), s))"
  by (simp add: check_username_def run_simps Let_def refuse_def split: sum.split)

lemma run_taken:
  "faults s = [] \<Longrightarrow> run (sql (\<lambda>s. select_user_by_lc lc)) s =
     (Inr (map_option u_id (List.find (\<lambda>u. u_lc u = lc) (users (pool s)))), s)"
  by (simp add: select_user_by_lc_def run_sql_query)

lemma find_taken: "List.find (\<lambda>u. u_lc u = lc) us = None \<longleftrightarrow> lc \<notin> u_lc ` set us"
  by (auto simp: find_None_iff)

lemma run_check_pubkey:
  "run (check_pubkey E rq) s =
     (if b64_decode E (rq_pubkey rq) = None then (refuse (BadRequest ''invalid pubkey: bad base64''), s)
      else if length (the (b64_decode E (rq_pubkey rq))) \<noteq> 32
      then (refuse (BadRequest ''invalid pubkey: must be 32 bytes''), s) else (Inr (), s))"
  by (simp add: check_pubkey_def run_simps refuse_def split: option.split)

lemma run_check_ip:
  "run (check_ip ip) s = (if parse_ip_addr ip = None then (refuse (BadRequest ''invalid ip''), s) else (Inr (), s))"
  by (simp add: check_ip_def run_simps refuse_def)

lemma run_check_email:
  "run (check_email c rq) s =
     (if require_email (cfg_registration c) \<and> bad_email rq then (refuse (BadRequest ''email required''), s)
      else (Inr (), s))"
  by (auto simp: check_email_def bad_email_def run_simps refuse_def Let_def split: option.split)

lemma run_check_max_users:
  "faults s = [] \<Longrightarrow> run (check_max_users c) s =
     (Inr (if 0 < max_users (cfg_registration c) \<and> unat (max_users (cfg_registration c)) \<le> length (users (pool s))
           then Some (json_response 429 [(''error'', JStr ''server_full'')]) else None), s)"
  by (simp add: check_max_users_def run_simps count_users_def run_sql_query)

lemmas run_checks = run_check_version run_check_invite run_check_username run_taken run_check_pubkey
  run_check_ip run_check_email run_check_max_users

lemma run_limit_register:
  "run (limit_register ip) s =
     (Inr (fst (allow_register ip (mono_now s) (limiter s))),
      s\<lparr>limiter := snd (allow_register ip (mono_now s) (limiter s))\<rparr>)"
  by (simp add: limit_register_def run_simps split: prod.split)

lemma run_unless_response:
  "run (unless_response early k) s = (case early of Some r \<Rightarrow> (Inr r, s) | None \<Rightarrow> run k s)"
  by (simp add: unless_response_def run_simps split: option.split)

text \<open>A check in front of a continuation, and the verdict of a list of checks.\<close>

lemma run_guard:
  "run p s = (if wrong then (Inl e, s) else (Inr a, s)) \<Longrightarrow>
     run (pbind p k) s = (if wrong then (Inl e, s) else run (k a) s)"
  by (simp add: run_pbind)

lemma run_early:
  "run p s = (Inr (if wrong then Some r else None), s) \<Longrightarrow>
     run (pbind p (\<lambda>early. unless_response early k)) s = (if wrong then (Inr r, s) else run k s)"
  by (simp add: run_pbind run_unless_response)

lemma case_verdict:
  "(case verdict ((wrong, r) # cs) of Some answer \<Rightarrow> (answer, s) | None \<Rightarrow> d) =
     (if wrong then (r, s) else (case verdict cs of Some answer \<Rightarrow> (answer, s) | None \<Rightarrow> d))"
  by simp

lemma case_verdict_Nil: "(case verdict [] of Some answer \<Rightarrow> (answer, s) | None \<Rightarrow> d) = d"
  by simp

text \<open>The checks without the limiter.\<close>

lemma run_register_checks:
  assumes f: "faults s = []"
  shows "run (pbind (check_version E rq) (\<lambda>old. unless_response old (
     pbind (reads config) (\<lambda>c.
     pbind (check_invite c rq) (\<lambda>_.
     pbind (check_username E c rq) (\<lambda>_.
     pbind (sql (\<lambda>s. select_user_by_lc (to_lowercase E (rq_username rq)))) (\<lambda>taken.
     pbind (require (taken = None) (Conflict ''username_taken'')) (\<lambda>_.
     pbind (check_pubkey E rq) (\<lambda>_.
     pbind (check_ip (rq_ip rq)) (\<lambda>_.
     pbind (check_email c rq) (\<lambda>_.
     pbind (check_max_users c) (\<lambda>full. unless_response full (k c))))))))))))) s
   = (case verdict (register_checks E s rq) of Some answer \<Rightarrow> (answer, s) | None \<Rightarrow> run (k (config s)) s)"
proof -
  let ?c = "config s" and ?rc = "cfg_registration (config s)" and ?d = "pool s"
  have invite: "run (pbind (check_invite ?c rq) k') s =
      (if \<not> reg_open ?rc \<and> rq_invite_code rq = None then (refuse (Forbidden ''registration_closed''), s)
       else if \<not> reg_open ?rc \<and> \<not> invite_is_open ?d (the (rq_invite_code rq))
       then (refuse (Forbidden ''invalid_invite''), s) else run (k' ()) s)" for k' :: "unit \<Rightarrow> response handler"
    by (simp add: run_pbind run_check_invite [OF f] refuse_def)
  have uname: "run (pbind (check_username E ?c rq) k') s =
      (if char_count (rq_username rq) < unat (username_min_length ?rc) \<or>
          unat (username_max_length ?rc) < char_count (rq_username rq)
       then (refuse (BadRequest (length_message ?rc)), s)
       else if isl (regex_new E (username_regex ?rc))
       then (refuse (Internal (projl (regex_new E (username_regex ?rc)))), s)
       else if \<not> projr (regex_new E (username_regex ?rc)) (rq_username rq)
       then (refuse (BadRequest ''invalid_username''), s) else run (k' ()) s)" for k' :: "unit \<Rightarrow> response handler"
    by (simp add: run_pbind run_check_username refuse_def Let_def)
  have taken: "run (pbind (sql (\<lambda>s. select_user_by_lc lc)) (\<lambda>taken.
      pbind (require (taken = None) (Conflict ''username_taken'')) k')) s =
      (if lc \<in> u_lc ` set (users ?d) then (refuse (Conflict ''username_taken''), s) else run (k' ()) s)"
    for lc and k' :: "unit \<Rightarrow> response handler"
    by (simp add: run_pbind run_taken [OF f] run_require find_taken refuse_def)
  have pubkey: "run (pbind (check_pubkey E rq) k') s =
      (if b64_decode E (rq_pubkey rq) = None then (refuse (BadRequest ''invalid pubkey: bad base64''), s)
       else if length (the (b64_decode E (rq_pubkey rq))) \<noteq> 32
       then (refuse (BadRequest ''invalid pubkey: must be 32 bytes''), s) else run (k' ()) s)"
    for k' :: "unit \<Rightarrow> response handler"
    by (simp add: run_pbind run_check_pubkey refuse_def)
  have config: "run (pbind (reads config) k') s = run (k' ?c) s" for k' :: "config \<Rightarrow> response handler"
    by (simp add: run_pbind run_reads)
  show ?thesis
    unfolding register_checks_def Let_def case_verdict case_verdict_Nil
    by (simp only: run_early [OF run_check_version] config invite uname taken pubkey
        run_guard [OF run_check_ip [unfolded refuse_def]] run_guard [OF run_check_email [unfolded refuse_def]]
        run_early [OF run_check_max_users [OF f]]) (simp only: refuse_def)
qed

lemma run_register:
  assumes "faults s = []"
  shows "run (register E rnd peer rq) s =
    (let (ok, l) = allow_register peer (mono_now s) (limiter s); s1 = s\<lparr>limiter := l\<rparr> in
     if \<not> ok then (Inl (Fail TooManyRequests), s1)
     else (case verdict (register_checks E s rq) of
             Some answer \<Rightarrow> (answer, s1)
           | None \<Rightarrow> run (register_write E (config s) rnd rq) s1))"
proof -
  obtain ok l where l: "allow_register peer (mono_now s) (limiter s) = (ok, l)" by fastforce
  let ?s = "s\<lparr>limiter := l\<rparr>"
  have f: "faults ?s = []" using assms by simp
  have c: "config ?s = config s" by simp
  have "register_checks E ?s rq = register_checks E s rq"
    by (simp add: register_checks_def too_old_def cong: option.case_cong)
  note checks = run_register_checks [OF f, of E rq "\<lambda>c. register_write E c rnd rq", unfolded this c]
  show ?thesis
    unfolding register_def run_pbind [of "limit_register peer"] run_limit_register l
    by (simp add: run_pbind [of "require ok _"] run_require Let_def checks)
qed


lemma sample_verdict: "verdict (register_checks sample_ext sample_server (sample_request ''vasya'')) = None"
proof -
  have ext: "regex_new sample_ext r = Inr (\<lambda>s. s \<noteq> [])" "b64_decode sample_ext t = Some (as_bytes t)" for r t
    by (simp_all add: sample_ext_def)
  have "char_count ''vasya'' = 5" by code_simp
  then show ?thesis
    unfolding register_checks_def Let_def
    by (simp add: ext sample_server_simps sample_request_def sample_config_def too_old_def empty_db_simps sample_parse
        as_bytes_def sample_key_def del: One_nat_def)
qed


section \<open>The writes\<close>

definition expiry_of :: "'v ext \<Rightarrow> config \<Rightarrow> nat \<Rightarrow> exn + string option" where
  "expiry_of E c now =
     (if 0 < ttl_days (cfg_tokens c)
      then (case add_days E now (unat (ttl_days (cfg_tokens c))) of
              None \<Rightarrow> Inl Panic | Some t \<Rightarrow> Inr (Some (to_rfc3339 E t)))
      else Inr None)"

lemma run_expires_at: "run (expires_at E c) s = (expiry_of E c (utc_now s), s)"
  by (simp add: expires_at_def expiry_of_def run_simps split: option.split)

text \<open>The database with one more account: its user, presence and token rows, its invite used.\<close>

definition account_user :: "'v ext \<Rightarrow> string \<Rightarrow> register_req \<Rightarrow> db \<Rightarrow> user_row" where
  "account_user E now rq d =
     \<lparr>u_id = Suc (user_seq d), u_name = rq_username rq, u_lc = to_lowercase E (rq_username rq),
      u_pubkey = rq_pubkey rq, u_email = rq_email rq, u_created = now\<rparr>"

definition with_account ::
  "'v ext \<Rightarrow> string \<Rightarrow> string option \<Rightarrow> string \<Rightarrow> register_req \<Rightarrow> db \<Rightarrow> db" where
  "with_account E now expiry hash rq d =
     (let uid = Suc (user_seq d) in
      d\<lparr>users := users d @ [account_user E now rq d], user_seq := uid,
        presence := insort_key p_user
          \<lparr>p_user = uid, p_ip = rq_ip rq, p_port = unat (rq_port rq), p_seen = now\<rparr> (presence d),
        tokens := tokens d @ [\<lparr>t_id = Suc (token_seq d), t_user = uid, t_hash = hash,
          t_created = now, t_expires = expiry\<rparr>],
        token_seq := Suc (token_seq d),
        invites := (case rq_invite_code rq of None \<Rightarrow> invites d | Some code \<Rightarrow>
          map (\<lambda>i. if i_code i = code then i\<lparr>i_used := Some uid, i_used_at := Some now\<rparr> else i) (invites d))\<rparr>)"

definition created_response :: "config \<Rightarrow> string \<Rightarrow> register_req \<Rightarrow> response" where
  "created_response c token rq =
     json_response 201 [(''token'', JStr token), (''username'', JStr (rq_username rq)), (''server'', JStr (host_text c))]"

lemma run_issue_token:
  assumes "faults s = []" "hash_token E (generate_token E rnd) \<notin> t_hash ` set (tokens (pool s))" "uid \<in> user_ids (pool s)"
  shows "run (issue_token E c rnd uid) s =
    (case expiry_of E c (utc_now s) of
       Inl e \<Rightarrow> (Inl e, s)
     | Inr exp \<Rightarrow> (Inr (generate_token E rnd),
         s\<lparr>pool := (pool s)\<lparr>tokens := tokens (pool s) @ [\<lparr>t_id = Suc (token_seq (pool s)), t_user = uid,
              t_hash = hash_token E (generate_token E rnd), t_created = sql_now E s, t_expires = exp\<rparr>],
            token_seq := Suc (token_seq (pool s))\<rparr>\<rparr>))"
  using assms
  by (simp add: issue_token_def run_simps run_expires_at run_sql_ok insert_token_def Let_def split: sum.split)

lemma run_insert_user:
  assumes "faults s = []" "rq_username rq \<notin> u_name ` set (users (pool s))"
    "to_lowercase E (rq_username rq) \<notin> u_lc ` set (users (pool s))"
  shows "run (sql (\<lambda>s. insert_user (rq_username rq) (to_lowercase E (rq_username rq)) (rq_pubkey rq)
              (rq_email rq) (sql_now E s))) s =
    (Inr (Suc (user_seq (pool s))), s\<lparr>pool := (pool s)\<lparr>users := users (pool s) @ [account_user E (sql_now E s) rq (pool s)],
       user_seq := Suc (user_seq (pool s))\<rparr>\<rparr>)"
  using assms by (simp add: run_sql_ok insert_user_def account_user_def Let_def)

lemma fresh_user_id: "db_ok d \<Longrightarrow> Suc (user_seq d) \<notin> user_ids d \<and> Suc (user_seq d) \<notin> p_user ` set (presence d)"
  by (fastforce simp: db_ok_def users_ok_def presence_ok_def user_ids_def)

text \<open>With a working engine the writes of an accepted registration all happen: one user, its
  presence, its token (hashed), its invite marked as used; the answer is 201 with the token.\<close>

lemma register_write_complete:
  assumes "faults s = []" "db_ok (pool s)"
    and "rq_username rq \<notin> u_name ` set (users (pool s))"
    and "to_lowercase E (rq_username rq) \<notin> u_lc ` set (users (pool s))"
    and "hash_token E (generate_token E rnd) \<notin> t_hash ` set (tokens (pool s))"
    and "expiry_of E c (utc_now s) = Inr exp"
  shows "run (register_write E c rnd rq) s =
    (Inr (created_response c (generate_token E rnd) rq),
     s\<lparr>pool := with_account E (sql_now E s) exp (hash_token E (generate_token E rnd)) rq (pool s)\<rparr>)"
proof -
  let ?u = "Suc (user_seq (pool s))"
  let ?s1 = "s\<lparr>pool := (pool s)\<lparr>users := users (pool s) @ [account_user E (sql_now E s) rq (pool s)], user_seq := ?u\<rparr>\<rparr>"
  let ?p = "\<lparr>p_user = ?u, p_ip = rq_ip rq, p_port = unat (rq_port rq), p_seen = sql_now E s\<rparr>"
  let ?s2 = "?s1\<lparr>pool := (pool ?s1)\<lparr>presence := insort_key p_user ?p (presence (pool s))\<rparr>\<rparr>"
  have now: "sql_now E ?s1 = sql_now E s" by (simp add: sql_now_def)
  have uid: "?u \<in> user_ids (pool ?s1)" by (simp add: user_ids_def account_user_def)
  have p: "run (sql (\<lambda>s. insert_presence ?u (rq_ip rq) (unat (rq_port rq)) (sql_now E s))) ?s1 = (Inr (), ?s2)"
    using assms(1) fresh_user_id [OF assms(2)] uid now by (simp add: run_sql_ok insert_presence_def)
  let ?s3 = "?s2\<lparr>pool := (pool ?s2)\<lparr>tokens := tokens (pool s) @ [\<lparr>t_id = Suc (token_seq (pool s)), t_user = ?u,
        t_hash = hash_token E (generate_token E rnd), t_created = sql_now E s, t_expires = exp\<rparr>],
        token_seq := Suc (token_seq (pool s))\<rparr>\<rparr>"
  have t: "run (issue_token E c rnd ?u) ?s2 = (Inr (generate_token E rnd), ?s3)"
    using run_issue_token [of ?s2 E rnd ?u c] assms(1,5,6) uid by (simp add: sql_now_def)
  have i: "run (pbind (case rq_invite_code rq of None \<Rightarrow> pure ()
       | Some code \<Rightarrow> sql (\<lambda>s. use_invite ?u code (sql_now E s))) (\<lambda>_. pure resp)) ?s3 =
     (Inr resp, s\<lparr>pool := with_account E (sql_now E s) exp (hash_token E (generate_token E rnd)) rq (pool s)\<rparr>)"
    for resp :: response
    using assms(1)
    by (simp add: run_simps run_sql_ok use_invite_def user_ids_def account_user_def
        with_account_def Let_def sql_now_def split: option.split)
  show ?thesis
    unfolding register_write_def run_pbind [of "sql _"] run_insert_user [OF assms(1,3,4)] prod.case sum.case p
      run_pbind [of "issue_token _ _ _ _"] t i
    by (simp add: created_response_def)
qed

lemma sample_expiry: "expiry_of sample_ext sample_config t = Inr None"
  by (simp add: expiry_of_def sample_config_def)

end
