(* ===== verification/Accounts.thy ===== *)
theory Accounts
  imports Register
begin

text \<open>
  Accounts over their life: an accepted registration and its token, the lifetime of a token, the
  removal of an account, \<open>POST /token/refresh\<close>, \<open>POST /invite/create\<close>, and the two public queries
  \<open>GET /search\<close> and \<open>GET /lookup\<close>.
\<close>

section \<open>Registration as a whole\<close>

lemma run_insert_user_taken:
  assumes "faults s = []"
    "rq_username rq \<in> u_name ` set (users (pool s)) \<or> to_lowercase E (rq_username rq) \<in> u_lc ` set (users (pool s))"
  shows "\<exists>e. run (register_write E c rnd rq) s = (Inl e, s)"
  using assms by (auto simp: register_write_def run_pbind run_sql_ok insert_user_def)

lemma register_outcome:
  assumes "faults s = []" "db_ok (pool s)"
    and "hash_token E (generate_token E rnd) \<notin> t_hash ` set (tokens (pool s))"
    and "expiry_of E (config s) (utc_now s) = Inr exp"
    and "run (register E rnd peer rq) s = (r, s')"
  shows "pool s' = pool s \<and> (\<forall>resp. r = Inr resp \<longrightarrow> 400 \<le> status resp) \<or>
    r = Inr (created_response (config s) (generate_token E rnd) rq) \<and>
    pool s' = with_account E (sql_now E s) exp (hash_token E (generate_token E rnd)) rq (pool s)"
proof -
  obtain ok l where l: "allow_register peer (mono_now s) (limiter s) = (ok, l)" by fastforce
  let ?s1 = "s\<lparr>limiter := l\<rparr>"
  note run = assms(5) [unfolded run_register [OF assms(1)] Let_def l prod.case]
  show ?thesis
  proof (cases "ok \<and> verdict (register_checks E s rq) = None")
    case False
    have "400 \<le> status resp" if "verdict (register_checks E s rq) = Some (Inr resp)" for resp
      using that by (simp add: register_checks_def Let_def refuse_def json_response_def split: if_splits) auto
    then show ?thesis using run False by (auto split: if_splits option.splits)
  next
    case True
    then have w: "run (register_write E (config s) rnd rq) ?s1 = (r, s')" using run by simp
    show ?thesis
    proof (cases "rq_username rq \<in> u_name ` set (users (pool s)) \<or>
        to_lowercase E (rq_username rq) \<in> u_lc ` set (users (pool s))")
      case taken: True
      then show ?thesis using run_insert_user_taken [of ?s1 rq E "config s" rnd] assms(1) w by auto
    next
      case False
      then show ?thesis
        using register_write_complete [of ?s1 rq E rnd "config s" exp] assms w by (simp add: sql_now_def)
    qed
  qed
qed


lemma sample_created:
  "run (register sample_ext [] (V4 0) (sample_request ''vasya'')) sample_server =
     (Inr (created_response sample_config (generate_token sample_ext []) (sample_request ''vasya'')),
      sample_server\<lparr>limiter := \<lparr>rl_register = [(V4 0, [0])], rl_lookup = []\<rparr>,
        pool := with_account sample_ext (sql_datetime sample_ext 0) None
          (hash_token sample_ext (generate_token sample_ext [])) (sample_request ''vasya'') empty_db\<rparr>)"
  using run_register [of sample_server sample_ext "[]" "V4 0" "sample_request ''vasya''"]
    register_write_complete [of "sample_server\<lparr>limiter := \<lparr>rl_register = [(V4 0, [0])], rl_lookup = []\<rparr>\<rparr>"
      "sample_request ''vasya''" sample_ext "[]" sample_config None]
  by (simp add: sample_server_simps sample_limiter sample_verdict db_ok_empty sample_expiry sql_now_def)
    (simp add: empty_db_simps)


section \<open>Tokens\<close>

lemma run_resolve_row:
  assumes "faults s = []" "db_ok (pool s)" "t \<in> set (tokens (pool s))"
    and "extract_bearer hs = Inr raw" "t_hash t = hash_token E raw"
  shows "run (resolve_token E hs) s =
    (if token_live (sql_now E s) t then Inr (t_user t) else Inl (Fail Unauthorized), s)"
  using token_hash.find_row_if [OF assms(2,3), of "token_live (sql_now E s)"] assms
  by (simp add: run_resolve_token)

lemma resolve_tokenD:
  assumes "faults s = []" "run (resolve_token E hs) s = (Inr uid, s')"
  shows "s' = s \<and> (\<exists>t raw. t \<in> set (tokens (pool s)) \<and> t_user t = uid \<and> extract_bearer hs = Inr raw \<and>
           t_hash t = hash_token E raw \<and> token_live (sql_now E s) t)"
  using assms by (auto simp: run_resolve_token dest!: find_SomeD split: sum.splits option.splits)

lemma extract_bearer_token:
  assumes "hex_ok E"
  shows "extract_bearer (bearer (generate_token E rnd)) = Inr (generate_token E rnd)"
proof -
  have "set (hex_encode E rnd) \<subseteq> set ''0123456789abcdef''" using assms by (simp add: hex_ok_def)
  then have "to_str (''Bearer '' @ generate_token E rnd) = Some (''Bearer '' @ generate_token E rnd)"
    by (auto simp: to_str_def generate_token_def)
  then show ?thesis by (simp add: extract_bearer_def bearer_def)
qed

lemma token_text:
  "hex_ok E \<Longrightarrow> length (generate_token E rnd) = 7 + 2 * length rnd \<and>
     take 7 (generate_token E rnd) = ''naleys_''"
  by (simp add: generate_token_def hex_ok_def)

lemma run_pbind_Inr:
  assumes "run (pbind p k) s = (Inr a, s')"
  obtains b t where "run p s = (Inr b, t)" "run (k b) t = (Inr a, s')"
  using assms by (auto simp: run_pbind split: prod.splits sum.splits)

lemma issue_token_issued:
  assumes "faults s = []" "run (issue_token E c rnd uid) s = (Inr token, s')"
  shows "hash_token E (generate_token E rnd) \<notin> t_hash ` set (tokens (pool s)) \<and>
    (\<exists>exp. expiry_of E c (utc_now s) = Inr exp)"
  using assms
  by (auto simp: issue_token_def Let_def run_pbind run_expires_at run_sql_ok insert_token_def split: sum.splits if_splits)

lemma created_issued:
  assumes "faults s = []" "run (register_write E c rnd rq) s = (Inr resp, s')"
  shows "hash_token E (generate_token E rnd) \<notin> t_hash ` set (tokens (pool s)) \<and>
    (\<exists>exp. expiry_of E c (utc_now s) = Inr exp)"
proof -
  obtain u t1 p t2 token t3 where
    1: "run (sql (\<lambda>s. insert_user (rq_username rq) (to_lowercase E (rq_username rq)) (rq_pubkey rq)
              (rq_email rq) (sql_now E s))) s = (Inr u, t1)"
    and 2: "run (sql (\<lambda>s. insert_presence u (rq_ip rq) (unat (rq_port rq)) (sql_now E s))) t1 = (Inr p, t2)"
    and 3: "run (issue_token E c rnd u) t2 = (Inr token, t3)"
    using assms(2) unfolding register_write_def by (elim run_pbind_Inr) blast
  have "faults t1 = []" "tokens (pool t1) = tokens (pool s)" "utc_now t1 = utc_now s"
    using 1 assms(1) by (auto simp: run_sql_ok insert_user_def Let_def split: if_splits)
  moreover from this have "faults t2 = []" "tokens (pool t2) = tokens (pool s)" "utc_now t2 = utc_now s"
    using 2 by (auto simp: run_sql_ok insert_presence_def split: if_splits)
  ultimately show ?thesis using issue_token_issued [OF _ 3] by simp
qed


lemma register_created:
  assumes "faults s = []" "db_ok (pool s)" "run (register E rnd peer rq) s = (Inr resp, s')" "status resp = 201"
  obtains exp where "expiry_of E (config s) (utc_now s) = Inr exp"
    and "hash_token E (generate_token E rnd) \<notin> t_hash ` set (tokens (pool s))"
    and "resp = created_response (config s) (generate_token E rnd) rq"
    and "pool s' = with_account E (sql_now E s) exp (hash_token E (generate_token E rnd)) rq (pool s)"
proof -
  obtain ok l where l: "allow_register peer (mono_now s) (limiter s) = (ok, l)" by fastforce
  let ?s1 = "s\<lparr>limiter := l\<rparr>"
  note run = assms(3) [unfolded run_register [OF assms(1)] Let_def l prod.case]
  have "status resp \<noteq> 201" if "verdict (register_checks E s rq) = Some (Inr resp)" for resp
    using that by (auto simp: register_checks_def Let_def refuse_def json_response_def split: if_splits)
  then have w: "run (register_write E (config s) rnd rq) ?s1 = (Inr resp, s')"
    using run assms(4) by (auto split: if_splits option.splits)
  have new: "rq_username rq \<notin> u_name ` set (users (pool s))"
    "to_lowercase E (rq_username rq) \<notin> u_lc ` set (users (pool s))"
    using run_insert_user_taken [of ?s1 rq E "config s" rnd] w assms(1) by auto
  obtain exp where fresh: "hash_token E (generate_token E rnd) \<notin> t_hash ` set (tokens (pool s))"
    and exp: "expiry_of E (config s) (utc_now s) = Inr exp"
    using created_issued [OF _ w] assms(1) by auto
  show thesis
    using register_write_complete [of ?s1 rq E rnd "config s" exp] assms(1,2) new fresh exp w
    by (intro that) (simp_all add: sql_now_def)
qed

text \<open>The token in a 201 answer is the bearer token of the new account, from any later state with
  that database, until its expiry text is not greater than the engine's clock.\<close>

theorem register_then_resolve:
  assumes "faults s = []" "db_ok (pool s)" "hex_ok E"
    and "run (register E rnd peer rq) s = (Inr resp, s')" "status resp = 201"
    and "pool t = pool s'" "faults t = []"
  shows "\<exists>exp. expiry_of E (config s) (utc_now s) = Inr exp \<and>
     run (resolve_token E (bearer (generate_token E rnd))) t =
       (if (case exp of None \<Rightarrow> True | Some e \<Rightarrow> sql_now E t < e)
        then Inr (Suc (user_seq (pool s))) else Inl (Fail Unauthorized), t)"
proof -
  obtain exp where exp: "expiry_of E (config s) (utc_now s) = Inr exp"
    and d: "pool s' = with_account E (sql_now E s) exp (hash_token E (generate_token E rnd)) rq (pool s)"
    using register_created [OF assms(1,2,4,5)] by metis
  let ?row = "\<lparr>t_id = Suc (token_seq (pool s)), t_user = Suc (user_seq (pool s)),
      t_hash = hash_token E (generate_token E rnd), t_created = sql_now E s, t_expires = exp\<rparr>"
  have "db_ok (pool t)" using safe_run [OF register_safe assms(2), of E rnd peer rq] assms(4,6) by simp
  moreover have "?row \<in> set (tokens (pool t))" using d assms(6) by (simp add: with_account_def Let_def)
  ultimately show ?thesis
    using run_resolve_row [of t ?row "bearer (generate_token E rnd)" "generate_token E rnd" E]
      extract_bearer_token [OF assms(3)] assms(7) exp
    by (simp add: token_live_def)
qed

theorem register_then_resolve_witness:
  "fst (run (resolve_token sample_ext (bearer (generate_token sample_ext [])))
     (snd (run (register sample_ext [] (V4 0) (sample_request ''vasya'')) sample_server))) = Inr 1"
  using register_then_resolve [of sample_server sample_ext "[]" "V4 0" "sample_request ''vasya''",
      OF _ _ sample_hex_ok sample_created _ refl]
  by (simp add: sample_server_simps db_ok_empty sample_expiry created_response_def json_response_def sample_created)
    (simp add: empty_db_simps)

text \<open>C39. A token with an expiry is accepted until the end (UTC) of the day of its expiry, whatever the
  hour: the RFC 3339 text and the engine's \<open>datetime('now')\<close> already differ after the date.\<close>

theorem token_day_granular:
  assumes "faults s = []" "db_ok (pool s)" "clock_texts E d"
    and "t \<in> set (tokens (pool s))" "t_expires t = Some (to_rfc3339 E e)"
    and "extract_bearer hs = Inr raw" "t_hash t = hash_token E raw"
    and "day_of e \<le> last_day" "day_of (utc_now s) \<le> last_day"
  shows "run (resolve_token E hs) s =
    (if day_of (utc_now s) \<le> day_of e then Inr (t_user t) else Inl (Fail Unauthorized), s)"
  using run_resolve_row [OF assms(1,2,4,6,7)] clock_texts_compare [OF assms(3,8,9)] assms(5)
  by (simp add: token_live_def sql_now_def)

theorem token_day_granular_witness:
  "run (resolve_token sample_ext (bearer sample_token)) (sample_home\<lparr>utc_now := 86399000000000\<rparr>) =
     (Inr 1, sample_home\<lparr>utc_now := 86399000000000\<rparr>)"
  using token_day_granular [of "sample_home\<lparr>utc_now := 86399000000000\<rparr>" sample_ext sample_date sample_token_row 0
      "bearer sample_token" sample_token]
    extract_bearer_token [OF sample_hex_ok, of sample_rnd]
  by (simp add: sample_db_ok sample_clock_texts sample_db_simps sample_token_def [symmetric])
    (simp add: sample_token_row_def day_of_def last_day_def)

lemma sample_auth: "run (resolve_token sample_ext (bearer sample_token)) sample_home = (Inr 1, sample_home)"
proof -
  have "sample_token_row \<in> set (tokens (pool sample_home))" by (simp add: sample_db_simps)
  moreover have "t_hash sample_token_row = hash_token sample_ext sample_token"
    by (simp add: sample_token_row_def)
  moreover have "token_live (sql_now sample_ext sample_home) sample_token_row"
    using clock_texts_compare [OF sample_clock_texts, of 0 0]
    by (simp add: token_live_def sample_token_row_def sql_now_def day_of_def last_day_def)
  ultimately show ?thesis
    using run_resolve_row [of sample_home sample_token_row "bearer sample_token" sample_token sample_ext]
      extract_bearer_token [OF sample_hex_ok, of sample_rnd]
    by (simp add: sample_db_ok sample_token_def [symmetric]) (simp add: sample_token_row_def)
qed

section \<open>Removing an account\<close>

lemma run_unregister:
  "faults s = [] \<Longrightarrow> run (resolve_token E hs) s = (Inr uid, s) \<Longrightarrow>
     run (unregister E hs) s = (Inr no_content, s\<lparr>pool := snd (delete_user uid (pool s))\<rparr>)"
  by (simp add: unregister_def run_simps run_sql_ok delete_user_def)

text \<open>Who is authenticated by what once an account is gone.\<close>

lemma resolve_after_removal:
  assumes "faults s = []" "db_ok (pool s)" "s' = s\<lparr>pool := snd (delete_user uid (pool s))\<rparr>"
  shows "run (resolve_token E hs') s' =
    (if fst (run (resolve_token E hs') s) = Inr uid then Inl (Fail Unauthorized)
     else fst (run (resolve_token E hs') s), s')"
proof (cases "extract_bearer hs'")
  case (Inr raw)
  have f: "faults s' = []" "sql_now E s' = sql_now E s" "db_ok (pool s')"
    "tokens (pool s') = filter (\<lambda>t. t_user t \<noteq> uid) (tokens (pool s))"
    using assms db_ok_delete_user [OF assms(2)] by (simp_all add: sql_now_def delete_user_def)
  have gone: "run (resolve_token E hs') s' = (Inl (Fail Unauthorized), s')"
    if "hash_token E raw \<notin> t_hash ` set (tokens (pool s'))"
  proof -
    have "List.find (\<lambda>t. t_hash t = hash_token E raw \<and> P t) (tokens (pool s')) = None" for P
      using that by (force simp: find_None_iff)
    then show ?thesis using f(1) Inr by (simp add: run_resolve_token)
  qed
  show ?thesis
  proof (cases "hash_token E raw \<in> t_hash ` set (tokens (pool s))")
    case True
    then obtain t where t: "t \<in> set (tokens (pool s))" "t_hash t = hash_token E raw" by auto
    note before = run_resolve_row [OF assms(1,2) t(1) Inr t(2)]
    show ?thesis
    proof (cases "t_user t = uid")
      case True
      then have "hash_token E raw \<notin> t_hash ` set (tokens (pool s'))"
        using token_hash.same_key [OF assms(2) t(1)] t(2) by (force simp: f(4))
      with gone before True show ?thesis by simp
    next
      case False
      then have "t \<in> set (tokens (pool s'))" using t(1) by (simp add: f(4))
      with run_resolve_row [OF f(1,3) _ Inr t(2)] before False f(2) show ?thesis by simp
    qed
  next
    case False
    then have "List.find (\<lambda>t. t_hash t = hash_token E raw \<and> P t) (tokens (pool s)) = None" for P
      by (force simp: find_None_iff)
    then show ?thesis using gone False assms(1) Inr by (simp add: f(4) image_iff run_resolve_token)
  qed
qed (simp add: run_resolve_token assms(1) assms(3))

text \<open>\<open>unregister\<close> removes the account, its presence and all its tokens, and nothing of anybody
  else: every other bearer resolves as before.\<close>

theorem unregister_complete:
  assumes "faults s = []" "db_ok (pool s)" "run (resolve_token E hs) s = (Inr uid, s)"
  shows "\<exists>s'. run (unregister E hs) s = (Inr no_content, s') \<and> uid \<notin> user_ids (pool s') \<and>
      uid \<notin> p_user ` set (presence (pool s')) \<and>
      users (pool s') = filter (\<lambda>u. u_id u \<noteq> uid) (users (pool s)) \<and>
      presence (pool s') = filter (\<lambda>p. p_user p \<noteq> uid) (presence (pool s)) \<and>
      (\<forall>hs'. run (resolve_token E hs') s' =
         (if fst (run (resolve_token E hs') s) = Inr uid then Inl (Fail Unauthorized)
          else fst (run (resolve_token E hs') s), s'))"
proof -
  let ?s' = "s\<lparr>pool := snd (delete_user uid (pool s))\<rparr>"
  have r: "run (unregister E hs) s = (Inr no_content, ?s')"
    by (rule run_unregister [OF assms(1,3)])
  show ?thesis
    by (intro exI [of _ ?s'] conjI allI r resolve_after_removal [OF assms(1,2) refl])
      (auto simp: delete_user_def user_ids_def)
qed

theorem unregister_complete_witness:
  "\<exists>s'. run (unregister sample_ext (bearer sample_token)) sample_home = (Inr no_content, s') \<and>
     users (pool s') = [sample_user 2 ''petya''] \<and> presence (pool s') = [sample_presence 2]"
  using unregister_complete [of sample_home sample_ext "bearer sample_token" 1, OF _ _ sample_auth]
  by (auto simp: sample_db_ok sample_db_simps sample_user_def sample_presence_def)

text \<open>A spent invite is open again once the account that used it is removed.\<close>

theorem unregister_revives_invite:
  assumes "faults s = []" "db_ok (pool s)" "run (resolve_token E hs) s = (Inr uid, s)"
    and "i \<in> set (invites (pool s))" "i_used i = Some uid"
  shows "\<not> invite_is_open (pool s) (i_code i) \<and> invite_is_open (pool (snd (run (unregister E hs) s))) (i_code i)"
proof
  show "\<not> invite_is_open (pool s) (i_code i)"
    using invite_key.same_key [OF assms(2,4)] assms(5) by (fastforce simp: invite_is_open_def)
  have "pool (snd (run (unregister E hs) s)) = snd (delete_user uid (pool s))"
    by (simp add: run_unregister [OF assms(1,3)])
  then show "invite_is_open (pool (snd (run (unregister E hs) s))) (i_code i)"
    using assms(4,5) by (auto simp: invite_is_open_def delete_user_def clear_ref_def intro!: bexI [of _ i])
qed

theorem unregister_revives_invite_witness:
  "invite_is_open (pool (snd (run (unregister sample_ext (bearer sample_token)) sample_home))) ''I''"
  using unregister_revives_invite [of sample_home sample_ext "bearer sample_token" 1 sample_invite, OF _ _ sample_auth]
  by (simp add: sample_db_ok sample_db_simps) (simp add: sample_invite_def)

section \<open>A failure of the engine in the middle of a registration\<close>



section \<open>Refreshing a token\<close>

lemma oldest_tokenD:
  "oldest_token uid d = Some i \<Longrightarrow> \<exists>t \<in> set (tokens d). t_id t = i \<and> t_user t = uid \<and>
     (\<forall>t' \<in> set (tokens d). t_user t' = uid \<longrightarrow> t_created t \<le> t_created t')"
proof -
  assume o: "oldest_token uid d = Some i"
  let ?own = "filter (\<lambda>t. t_user t = uid) (tokens d)"
  obtain t ts where s: "sort_key t_created ?own = t # ts" "t_id t = i"
    using o by (auto simp: oldest_token_def split: list.splits)
  have "set (t # ts) = set ?own" using s(1) by (metis set_sort)
  moreover have "sorted (map t_created (t # ts))" using s(1) by (metis sorted_sort_key)
  ultimately show ?thesis using s(2) by (intro bexI [of _ t]) (auto simp: set_eq_iff)
qed

lemma oldest_token_exists: "t \<in> set (tokens d) \<Longrightarrow> t_user t = uid \<Longrightarrow> oldest_token uid d \<noteq> None"
proof -
  assume "t \<in> set (tokens d)" "t_user t = uid"
  then have "filter (\<lambda>t. t_user t = uid) (tokens d) \<noteq> []" by (auto simp: filter_empty_conv)
  then have "sort_key t_created (filter (\<lambda>t. t_user t = uid) (tokens d)) \<noteq> []"
    by (metis set_empty set_sort)
  then show ?thesis by (simp add: oldest_token_def split: list.splits)
qed

definition tokens_of :: "nat \<Rightarrow> db \<Rightarrow> token_row list" where
  "tokens_of uid d = filter (\<lambda>t. t_user t = uid) (tokens d)"

text \<open>Deleting the oldest token of a user deletes one row, and it is one of theirs.\<close>

lemma delete_oldest_own:
  assumes ok: "db_ok d" and t: "t \<in> set (tokens d)" "t_user t = uid"
  shows "length (tokens_of uid (snd (delete_oldest_token uid d))) = length (tokens_of uid d) - 1"
proof -
  obtain i where i: "oldest_token uid d = Some i" using oldest_token_exists [OF t] by blast
  then obtain o' where o': "o' \<in> set (tokens d)" "t_id o' = i" "t_user o' = uid"
    using oldest_tokenD by blast
  have dist: "distinct (map t_id (tokens_of uid d))"
    using ok by (simp add: db_ok_def tokens_ok_def tokens_of_def distinct_map_filter)
  have "tokens_of uid (snd (delete_oldest_token uid d)) = filter (\<lambda>t. t_id t \<noteq> i) (tokens_of uid d)"
    using i by (simp add: tokens_of_def delete_oldest_token_def) (metis filter_filter conj_commute)
  moreover have "length (filter (\<lambda>t. t_id t \<noteq> i) ts) = length ts - 1"
    if "distinct (map t_id ts)" "i \<in> t_id ` set ts" for ts
    using that
  proof (induction ts)
    case (Cons x ts)
    show ?case
    proof (cases "t_id x = i")
      case True
      then have "i \<notin> t_id ` set ts" using Cons.prems(1) by simp
      then have "filter (\<lambda>t. t_id t \<noteq> i) ts = ts" by (auto simp: filter_id_conv)
      with True show ?thesis by simp
    next
      case False
      then have "length (filter (\<lambda>t. t_id t \<noteq> i) ts) = length ts - 1" "ts \<noteq> []" using Cons by auto
      with False show ?thesis by simp
    qed
  qed simp
  moreover have "i \<in> t_id ` set (tokens_of uid d)" using o' by (auto simp: tokens_of_def)
  ultimately show ?thesis using dist by simp
qed


definition refreshed :: "'v ext \<Rightarrow> bytes \<Rightarrow> string option \<Rightarrow> nat \<Rightarrow> app_state \<Rightarrow> db \<Rightarrow> db" where
  "refreshed E rnd exp uid s d =
     d\<lparr>tokens := tokens d @ [\<lparr>t_id = Suc (token_seq d), t_user = uid,
         t_hash = hash_token E (generate_token E rnd), t_created = sql_now E s, t_expires = exp\<rparr>],
       token_seq := Suc (token_seq d)\<rparr>"

lemma run_token_refresh:
  assumes "faults s = []" "db_ok (pool s)" "run (resolve_token E hs) s = (Inr uid, s)"
    and "hash_token E (generate_token E rnd) \<notin> t_hash ` set (tokens (pool s))"
    and "expiry_of E (config s) (utc_now s) = Inr exp"
  shows "run (token_refresh E rnd hs) s =
     (Inr (json_response 200 [(''token'', JStr (generate_token E rnd))]),
      s\<lparr>pool := refreshed E rnd exp uid s
         (if unat (max_per_user (cfg_tokens (config s))) \<le> length (tokens_of uid (pool s))
          then snd (delete_oldest_token uid (pool s)) else pool s)\<rparr>)"
proof -
  let ?full = "unat (max_per_user (cfg_tokens (config s))) \<le> length (tokens_of uid (pool s))"
  let ?d = "if ?full then snd (delete_oldest_token uid (pool s)) else pool s"
  have uid: "uid \<in> user_ids (pool s)"
    using resolve_tokenD [OF assms(1,3)] assms(2) by (auto simp: db_ok_def tokens_ok_def)
  have old: "users (snd (delete_oldest_token uid d)) = users d"
    "set (tokens (snd (delete_oldest_token uid d))) \<subseteq> set (tokens d)" for d
    by (auto simp: delete_oldest_token_def)
  have count: "run (sql (\<lambda>s. count_tokens uid)) s = (Inr (length (tokens_of uid (pool s))), s)"
    by (simp add: count_tokens_def run_sql_query assms(1) tokens_of_def)
  have del: "run (if ?full then sql (\<lambda>s. delete_oldest_token uid) else pure ()) s = (Inr (), s\<lparr>pool := ?d\<rparr>)"
    by (simp add: run_sql_ok assms(1) run_pure delete_oldest_token_def)
  have issue: "run (issue_token E (config s) rnd uid) (s\<lparr>pool := ?d\<rparr>) =
      (Inr (generate_token E rnd), s\<lparr>pool := refreshed E rnd exp uid s ?d\<rparr>)"
  proof -
    have "hash_token E (generate_token E rnd) \<notin> t_hash ` set (tokens ?d)" "uid \<in> user_ids ?d"
      using assms(4) uid old by (auto simp: user_ids_def)
    then show ?thesis using assms(1,5)
      by (subst run_issue_token) (simp_all add: refreshed_def sql_now_def)
  qed
  show ?thesis
    unfolding token_refresh_def user_auth.accepted [OF assms(1) arg_cong [OF assms(3), of fst, unfolded fst_conv]]
    by (simp only: run_pbind count del issue run_reads run_pure prod.case sum.case)
qed

text \<open>\<open>token_refresh\<close> returns a new token of the same account. Below \<open>max_per_user\<close> the account
  gains a token; at or above it, it keeps as many as it had, and the only row deleted anywhere is one
  of the account's oldest.\<close>

theorem token_refresh_bounded:
  assumes "faults s = []" "db_ok (pool s)" "run (resolve_token E hs) s = (Inr uid, s)"
    and "hash_token E (generate_token E rnd) \<notin> t_hash ` set (tokens (pool s))"
    and "expiry_of E (config s) (utc_now s) = Inr exp"
  shows "\<exists>s'. run (token_refresh E rnd hs) s =
        (Inr (json_response 200 [(''token'', JStr (generate_token E rnd))]), s') \<and>
      length (tokens_of uid (pool s')) =
        (if unat (max_per_user (cfg_tokens (config s))) \<le> length (tokens_of uid (pool s))
         then length (tokens_of uid (pool s)) else Suc (length (tokens_of uid (pool s)))) \<and>
      (\<exists>t \<in> set (tokens_of uid (pool s')). t_hash t = hash_token E (generate_token E rnd) \<and> t_expires t = exp) \<and>
      (\<forall>t \<in> set (tokens (pool s)). t \<in> set (tokens (pool s')) \<or>
         t_user t = uid \<and> (\<forall>t' \<in> set (tokens_of uid (pool s)). t_created t \<le> t_created t'))"
proof -
  let ?full = "unat (max_per_user (cfg_tokens (config s))) \<le> length (tokens_of uid (pool s))"
  let ?d = "if ?full then snd (delete_oldest_token uid (pool s)) else pool s"
  let ?s' = "s\<lparr>pool := refreshed E rnd exp uid s ?d\<rparr>"
  obtain t0 where t0: "t0 \<in> set (tokens (pool s))" "t_user t0 = uid"
    using resolve_tokenD [OF assms(1,3)] by blast
  then have pos: "0 < length (tokens_of uid (pool s))" by (auto simp: tokens_of_def filter_empty_conv)
  have new: "tokens_of uid (refreshed E rnd exp uid s d) =
      tokens_of uid d @ [\<lparr>t_id = Suc (token_seq d), t_user = uid,
         t_hash = hash_token E (generate_token E rnd), t_created = sql_now E s, t_expires = exp\<rparr>]" for d
    by (simp add: tokens_of_def refreshed_def)
  have "length (tokens_of uid (pool ?s')) = (if ?full then length (tokens_of uid (pool s)) else Suc (length (tokens_of uid (pool s))))"
    using pos by (simp add: new delete_oldest_own [OF assms(2) t0])
  moreover have "t \<in> set (tokens (pool ?s')) \<or>
      t_user t = uid \<and> (\<forall>t' \<in> set (tokens_of uid (pool s)). t_created t \<le> t_created t')"
    if t: "t \<in> set (tokens (pool s))" for t
  proof (cases "?full \<and> oldest_token uid (pool s) = Some (t_id t)")
    case True
    then show ?thesis
      using oldest_tokenD [of uid "pool s" "t_id t"] token_id.same_key [OF assms(2) t] by (fastforce simp: tokens_of_def)
  next
    case False
    then show ?thesis using t by (auto simp: refreshed_def delete_oldest_token_def)
  qed
  ultimately show ?thesis
    by (intro exI [of _ ?s'] conjI run_token_refresh [OF assms]) (auto simp: new)
qed

lemma sample_tokens_of: "tokens_of 1 sample_db = [sample_token_row]"
  by (simp add: tokens_of_def sample_db_simps) (simp add: sample_token_row_def)

theorem token_refresh_bounded_witness:
  "\<exists>s'. run (token_refresh sample_ext [] (bearer sample_token)) sample_home =
      (Inr (json_response 200 [(''token'', JStr (generate_token sample_ext []))]), s') \<and>
     length (tokens_of 1 (pool s')) = 2"
  using token_refresh_bounded [of sample_home sample_ext "bearer sample_token" 1 "[]" None, OF _ _ sample_auth]
    sample_fresh [of "[]"]
  by (auto simp: sample_db_ok sample_expiry sample_max_tokens sample_tokens_of simp del: One_nat_def)

section \<open>Invite codes\<close>

lemma length_invite_chars: "length invite_chars = 32"
  by (simp add: invite_chars_def)

lemma distinct_invite_chars: "distinct invite_chars"
  by (simp add: invite_chars_def)

text \<open>The five bits of \<open>n\<close> from \<open>5 * i\<close> on.\<close>

definition quint :: "u32 \<Rightarrow> nat \<Rightarrow> nat" where
  "quint n i = unat (and (drop_bit (i * 5) n) 0x1F)"

lemma quint_less: "quint n i < 32"
proof -
  have "and (drop_bit (i * 5) n) 0x1F = take_bit 5 (drop_bit (i * 5) n)"
    by (simp add: take_bit_eq_mask mask_eq_exp_minus_1)
  then show ?thesis
    using take_bit_nat_less_exp [of 5 "unat (drop_bit (i * 5) n)"] by (simp add: quint_def unsigned_take_bit_eq)
qed

lemma invite_part_quint: "invite_part n = map (\<lambda>i. invite_chars ! quint n i) [0..<4]"
  using quint_less by (simp add: invite_part_def quint_def [symmetric] length_invite_chars)

lemma bit_quint: "j < 5 \<Longrightarrow> bit (quint n i) j \<longleftrightarrow> bit n (i * 5 + j)"
proof -
  assume "j < 5"
  have "and (drop_bit (i * 5) n) 0x1F = take_bit 5 (drop_bit (i * 5) n)"
    by (simp add: take_bit_eq_mask mask_eq_exp_minus_1)
  then have "quint n i = unat (take_bit 5 (drop_bit (i * 5) n))" by (simp add: quint_def)
  then show ?thesis using \<open>j < 5\<close> by (auto simp: bit_unsigned_iff bit_take_bit_iff bit_drop_bit_eq dest: bit_imp_le_length)
qed

lemma invite_part_eq:
  "invite_part m = invite_part n \<longleftrightarrow> (\<forall>i < 4. quint m i = quint n i)"
proof -
  have "invite_chars ! quint m i = invite_chars ! quint n i \<longleftrightarrow> quint m i = quint n i" for i
    using quint_less by (simp add: nth_eq_iff_index_eq distinct_invite_chars length_invite_chars)
  then show ?thesis by (auto simp: invite_part_quint)
qed

lemma bit_of_quint: "(\<forall>i < 4. quint m i = quint n i) \<Longrightarrow> k < 20 \<Longrightarrow> bit m k \<longleftrightarrow> bit n k"
proof -
  assume eq: "\<forall>i < 4. quint m i = quint n i" and "k < 20"
  then have "quint m (k div 5) = quint n (k div 5)" by simp
  then have "bit (quint m (k div 5)) (k mod 5) = bit (quint n (k div 5)) (k mod 5)" by simp
  then show ?thesis by (simp add: bit_quint)
qed

text \<open>The last letter has one bit left of the draw.\<close>

lemma last_quint: "quint (drop_bit 16 r) 3 < 2"
proof -
  have "\<not> bit (quint (drop_bit 16 r) 3) j" if "1 \<le> j" for j
  proof (cases "j < 5")
    case True
    then show ?thesis using that by (auto simp: bit_quint bit_drop_bit_eq dest: bit_imp_le_length)
  next
    case False
    have "quint (drop_bit 16 r) 3 < 2 ^ 5" using quint_less by simp
    with False show ?thesis by (metis bit_take_bit_iff take_bit_nat_eq_self)
  qed
  then have "drop_bit 1 (quint (drop_bit 16 r) 3) = 0" by (intro bit_eqI) (simp add: bit_drop_bit_eq)
  then show ?thesis by (simp add: drop_bit_eq_div)
qed

text \<open>The two parts cover the draw.\<close>

lemma invite_code_inj:
  assumes "invite_code r = invite_code r'"
  shows "r = r'"
proof -
  have len: "length (invite_part n) = 4" for n by (simp add: invite_part_def)
  from assms have eq: "invite_part r = invite_part r'" "invite_part (drop_bit 16 r) = invite_part (drop_bit 16 r')"
    by (auto simp: invite_code_def len append_eq_append_conv)
  show ?thesis
  proof (rule bit_word_eqI)
    fix k assume "k < LENGTH(32)"
    then consider "k < 20" | "16 \<le> k" "k - 16 < 20" by fastforce
    then show "bit r k = bit r' k"
    proof cases
      case 1
      then show ?thesis using eq(1) bit_of_quint by (simp add: invite_part_eq)
    next
      case 2
      then have "bit (drop_bit 16 r) (k - 16) = bit (drop_bit 16 r') (k - 16)"
        using eq(2) bit_of_quint by (simp add: invite_part_eq)
      with 2 show ?thesis by (simp add: bit_drop_bit_eq)
    qed
  qed
qed

text \<open>An invite code has the form \<open>XXXX-YYYY\<close> over the 32 letters, different draws give different
  codes, and its last letter, made of the one bit left of the draw, is always \<open>A\<close> or \<open>B\<close>.\<close>

theorem invite_code_format:
  "length (invite_code r) = 9 \<and> invite_code r ! 4 = CHR ''-'' \<and>
   set (take 4 (invite_code r) @ drop 5 (invite_code r)) \<subseteq> set invite_chars \<and>
   invite_code r ! 8 \<in> {CHR ''A'', CHR ''B''} \<and> (invite_code r = invite_code r') = (r = r')"
proof (intro conjI iffI)
  have len: "length (invite_part n) = 4" for n by (simp add: invite_part_def)
  have sub: "set (invite_part n) \<subseteq> set invite_chars" for n
    using quint_less by (auto simp: invite_part_quint length_invite_chars)
  show "length (invite_code r) = 9" "invite_code r ! 4 = CHR ''-''"
    by (simp_all add: invite_code_def len nth_append)
  show "set (take 4 (invite_code r) @ drop 5 (invite_code r)) \<subseteq> set invite_chars"
    using sub by (simp add: invite_code_def len)
  have "invite_chars ! quint (drop_bit 16 r) 3 \<in> {CHR ''A'', CHR ''B''}"
    using last_quint [of r] by (auto simp: less_2_cases_iff invite_chars_def)
  moreover have "invite_code r ! 8 = invite_part (drop_bit 16 r) ! 3"
    by (simp add: invite_code_def nth_append len)
  ultimately show "invite_code r ! 8 \<in> {CHR ''A'', CHR ''B''}" by (simp add: invite_part_quint)
  show "r = r'" if "invite_code r = invite_code r'" using that by (rule invite_code_inj)
qed simp

section \<open>Search\<close>

lemma like_any: "sql_like ''%'' s"
proof (induction "length s" arbitrary: s rule: less_induct)
  case less
  show ?case
  proof (cases s)
    case Nil
    then show ?thesis by (simp add: sql_like.simps(2))
  next
    case (Cons c cs)
    then have "sql_like ''%'' (next_char s)" using less length_next_char [of s] by simp
    then show ?thesis using Cons by (subst sql_like.simps(2)) simp
  qed
qed

lemma like_plain:
  "CHR ''%'' \<notin> set q \<Longrightarrow> CHR ''_'' \<notin> set q \<Longrightarrow>
     sql_like (q @ ''%'') s \<longleftrightarrow> length q \<le> length s \<and> map ascii_lower q = map ascii_lower (take (length q) s)"
proof (induction q arbitrary: s)
  case Nil
  then show ?case by (simp add: like_any)
next
  case (Cons p ps)
  have "sql_like ((p # ps) @ ''%'') s \<longleftrightarrow> s \<noteq> [] \<and> ascii_lower p = ascii_lower (hd s) \<and> sql_like (ps @ ''%'') (tl s)"
    using Cons.prems by (auto simp: sql_like.simps(2) [of p])
  also have "\<dots> \<longleftrightarrow> s \<noteq> [] \<and> ascii_lower p = ascii_lower (hd s) \<and> length ps \<le> length (tl s) \<and>
      map ascii_lower ps = map ascii_lower (take (length ps) (tl s))"
    using Cons by simp
  also have "\<dots> \<longleftrightarrow> length (p # ps) \<le> length s \<and> map ascii_lower (p # ps) = map ascii_lower (take (length (p # ps)) s)"
    by (cases s) auto
  finally show ?case .
qed

lemma ascii_lower_idem: "ascii_lower (ascii_lower c) = ascii_lower c"
proof -
  have "(of_char c :: nat) < 256" by simp
  then show ?thesis by (simp add: ascii_lower_def Let_def)
qed

lemma ascii_lower_special: "ascii_lower c = d \<Longrightarrow> of_char d < (65 :: nat) \<or> (90 :: nat) < of_char d \<and> of_char d < (97 :: nat) \<Longrightarrow> c = d"
proof -
  assume l: "ascii_lower c = d" and d: "of_char d < (65 :: nat) \<or> (90 :: nat) < of_char d \<and> of_char d < (97 :: nat)"
  show "c = d"
  proof (cases "65 \<le> (of_char c :: nat) \<and> (of_char c :: nat) \<le> 90")
    case True
    then have "d = char_of (of_char c + 32 :: nat)" using l by (simp add: ascii_lower_def Let_def)
    then have "(of_char d :: nat) = of_char c + 32" using True by simp
    with d True show ?thesis by simp
  qed (use l in \<open>auto simp: ascii_lower_def Let_def split: if_splits\<close>)
qed

lemma run_search:
  assumes "faults s = []" "q \<noteq> []" "length (to_lowercase E q) < 50000"
  shows "run (search E (Some q)) s =
    (Inr (users_json (map u_name (take 20 (filter (\<lambda>u. sql_like (to_lowercase E q @ ''%'') (u_lc u)) (users (pool s)))))), s)"
  using assms by (simp add: search_def run_simps run_sql_ok search_users_def)

text \<open>For a query of ASCII characters other than the two wildcards, \<open>search\<close> is a case-insensitive
  prefix search over the lower-case names, at most 20 of them.\<close>

theorem search_prefix:
  assumes "faults s = []" "lowercase_ok E"
    and "q \<noteq> []" "length q < 50000" "\<forall>c \<in> set q. (of_char c :: nat) < 128 \<and> c \<noteq> CHR ''%'' \<and> c \<noteq> CHR ''_''"
    and "\<forall>u \<in> set (users (pool s)). map ascii_lower (u_lc u) = u_lc u"
  shows "run (search E (Some q)) s =
    (Inr (users_json (map u_name (take 20
       (filter (\<lambda>u. take (length q) (u_lc u) = map ascii_lower q) (users (pool s)))))), s)"
proof -
  let ?q = "map ascii_lower q"
  have lower: "to_lowercase E q = ?q" using assms(2,5) by (simp add: lowercase_ok_def)
  have "ascii_lower c = CHR ''%'' \<Longrightarrow> c = CHR ''%''" "ascii_lower c = CHR ''_'' \<Longrightarrow> c = CHR ''_''" for c
    by (rule ascii_lower_special, assumption, simp)+
  then have plain: "CHR ''%'' \<notin> set ?q" "CHR ''_'' \<notin> set ?q"
    using assms(5) by (metis (no_types, lifting) imageE list.set_map)+
  have "sql_like (?q @ ''%'') (u_lc u) \<longleftrightarrow> take (length q) (u_lc u) = ?q"
    if "u \<in> set (users (pool s))" for u
  proof -
    have "map ascii_lower (u_lc u) = u_lc u" using assms(6) that by simp
    then have "map ascii_lower (take (length q) (u_lc u)) = take (length q) (u_lc u)" by (metis take_map)
    then show ?thesis
      using like_plain [OF plain, of "u_lc u"] length_take [of "length q" "u_lc u"]
      by (auto simp: ascii_lower_idem comp_def dest: arg_cong [of _ _ length])
  qed
  then show ?thesis using run_search [OF assms(1,3), of E] assms(4) lower by (simp cong: filter_cong)
qed

theorem search_prefix_witness:
  "run (search sample_ext (Some ''Vas'')) sample_home = (Inr (users_json [''vasya'']), sample_home)"
  using search_prefix [of sample_home sample_ext "''Vas''", OF _ sample_lowercase_ok]
  by (simp add: sample_db_simps sample_user_def sample_lower)

text \<open>The query is not escaped: \<open>%\<close> lists users whatever their names.\<close>

theorem search_wildcard:
  assumes "faults s = []" "lowercase_ok E"
  shows "run (search E (Some ''%'')) s = (Inr (users_json (map u_name (take 20 (users (pool s))))), s)"
proof -
  have "to_lowercase E ''%'' = ''%''" using assms(2) by (simp add: lowercase_ok_def ascii_lower_def)
  moreover have "sql_like ''%%'' t" for t using like_any [of t] by (simp add: sql_like.simps(2) [of "CHR ''%''" "''%''"])
  ultimately show ?thesis using assms(1)
    by (simp add: search_def run_simps run_sql_ok search_users_def users_json_def)
qed

theorem search_wildcard_witness:
  "run (search sample_ext (Some ''%'')) sample_home = (Inr (users_json [''vasya'', ''petya'']), sample_home)"
  using search_wildcard [of sample_home sample_ext, OF _ sample_lowercase_ok]
  by (simp add: sample_db_simps sample_user_def)

section \<open>Lookup\<close>

lemma run_limit_lookup:
  "run (limit_lookup ip) s =
     (Inr (fst (allow_lookup ip (mono_now s) (limiter s))),
      s\<lparr>limiter := snd (allow_lookup ip (mono_now s) (limiter s))\<rparr>)"
  by (simp add: limit_lookup_def run_simps split: prod.split)

definition online_since :: "'v ext \<Rightarrow> app_state \<Rightarrow> presence_row \<Rightarrow> bool" where
  "online_since E s p =
     (case sql_minutes_ago E (utc_now s) (unat (offline_after_minutes (cfg_presence (config s)))) of
        None \<Rightarrow> False | Some c \<Rightarrow> c < p_seen p)"

definition lookup_json :: "user_row \<Rightarrow> presence_row \<Rightarrow> bool \<Rightarrow> response" where
  "lookup_json u p online = json_response 200
     [(''username'', JStr (u_name u)), (''pubkey'', JStr (u_pubkey u)), (''ip'', JStr (p_ip p)),
      (''port'', JInt (int (p_port p))), (''online'', JBool online), (''last_seen'', JStr (p_seen p))]"

lemma run_lookup:
  assumes "faults s = []" "db_ok (pool s)" "allow_lookup peer (mono_now s) (limiter s) = (True, l)"
    and "u \<in> set (users (pool s))" "u_lc u = to_lowercase E name"
    and "p \<in> set (presence (pool s))" "p_user p = u_id u"
    and "List.find (\<lambda>r. p_ip r = p_ip p) (presence (pool s)) = Some q"
  shows "run (lookup E peer name) s = (Inr (lookup_json u p (online_since E s q)), s\<lparr>limiter := l\<rparr>)"
proof -
  let ?s = "s\<lparr>limiter := l\<rparr>"
  have row: "run (sql (\<lambda>s. select_lookup (to_lowercase E name))) ?s =
      (Inr (Some (u_pubkey u, p_ip p, p_port p, p_seen p, u_name u)), ?s)"
    using assms(1,5-7) user_lc.find_row [OF assms(2,4)] presence_user.find_row [OF assms(2,6)]
    by (simp add: select_lookup_def run_sql_query)
  have online: "run (unwrap_or False (sql (\<lambda>s. select_online_by_ip (cut s) (p_ip p)))) ?s =
      (Inr (case cut ?s of None \<Rightarrow> False | Some c \<Rightarrow> c < p_seen q), ?s)" for cut :: "app_state \<Rightarrow> string option"
    using assms(1,8) by (simp add: run_unwrap_or run_sql_ok select_online_by_ip_def split: option.split)
  show ?thesis
    unfolding lookup_def
    by (simp add: run_pbind run_limit_lookup assms(3) run_require row run_reads online run_pure)
      (simp add: lookup_json_def online_since_def)
qed

text \<open>\<open>lookup\<close> answers with the row of the user, and with the user's own status when nobody else
  has the same address.\<close>

theorem lookup_own_status:
  assumes "faults s = []" "db_ok (pool s)" "allow_lookup peer (mono_now s) (limiter s) = (True, l)"
    and "u \<in> set (users (pool s))" "u_lc u = to_lowercase E name"
    and "p \<in> set (presence (pool s))" "p_user p = u_id u"
    and "\<forall>q \<in> set (presence (pool s)). p_ip q = p_ip p \<longrightarrow> q = p"
  shows "run (lookup E peer name) s = (Inr (lookup_json u p (online_since E s p)), s\<lparr>limiter := l\<rparr>)"
proof -
  obtain q where q: "List.find (\<lambda>r. p_ip r = p_ip p) (presence (pool s)) = Some q"
    using assms(6) find_NoneD by fastforce
  then have "q = p" using find_SomeD [OF q] assms(8) by simp
  with run_lookup [OF assms(1-7)] q show ?thesis by simp
qed

theorem lookup_own_status_witness:
  "fst (run (lookup sample_ext (V4 0) ''vasya'')
      (sample_home\<lparr>pool := sample_db\<lparr>presence := [sample_presence 1]\<rparr>\<rparr>)) =
    Inr (lookup_json (sample_user 1 ''vasya'') (sample_presence 1)
      (online_since sample_ext (sample_home\<lparr>pool := sample_db\<lparr>presence := [sample_presence 1]\<rparr>\<rparr>) (sample_presence 1)))"
proof -
  have "db_ok (sample_db\<lparr>presence := [sample_presence 1]\<rparr>)"
    using sample_db_ok by (simp add: db_ok_def presence_ok_def sample_db_simps)
  then show ?thesis
    using lookup_own_status [of "sample_home\<lparr>pool := sample_db\<lparr>presence := [sample_presence 1]\<rparr>\<rparr>" "V4 0"
      _ "sample_user 1 ''vasya''" sample_ext "''vasya''" "sample_presence 1"]
    by (simp add: sample_lookup_limiter sample_db_simps sample_lc sample_lower sample_user_def sample_presence_def)
qed

text \<open>The status is looked up by address: two users behind one address always get the same one.\<close>

theorem lookup_shared_address:
  assumes "faults s = []" "db_ok (pool s)" "allow_lookup peer (mono_now s) (limiter s) = (True, l)"
    and "u \<in> set (users (pool s))" "u_lc u = to_lowercase E name"
    and "p \<in> set (presence (pool s))" "p_user p = u_id u"
    and "u' \<in> set (users (pool s))" "u_lc u' = to_lowercase E name'"
    and "p' \<in> set (presence (pool s))" "p_user p' = u_id u'" "p_ip p' = p_ip p"
  shows "\<exists>online. fst (run (lookup E peer name) s) = Inr (lookup_json u p online) \<and>
    fst (run (lookup E peer name') s) = Inr (lookup_json u' p' online)"
proof -
  obtain q where q: "List.find (\<lambda>r. p_ip r = p_ip p) (presence (pool s)) = Some q"
    using assms(6) find_NoneD by fastforce
  then show ?thesis
    using run_lookup [OF assms(1-7) q] run_lookup [OF assms(1-3,8-11), of q] assms(12) by auto
qed

theorem lookup_shared_address_witness:
  "\<exists>online. fst (run (lookup sample_ext (V4 0) ''vasya'') sample_home) =
       Inr (lookup_json (sample_user 1 ''vasya'') (sample_presence 1) online) \<and>
     fst (run (lookup sample_ext (V4 0) ''petya'') sample_home) =
       Inr (lookup_json (sample_user 2 ''petya'') (sample_presence 2) online)"
  using lookup_shared_address [of sample_home "V4 0" _ "sample_user 1 ''vasya''" sample_ext "''vasya''"
      "sample_presence 1" "sample_user 2 ''petya''" "''petya''" "sample_presence 2"]
  by (simp add: sample_db_ok sample_lookup_limiter sample_db_simps sample_lc sample_lower sample_user_def sample_presence_def)

end
