(* ===== verification/Account_Flows.thy ===== *)
theory Account_Flows
  imports Accounts
begin

text \<open>
  Requests that build on each other: an invite is spent by the first of two registrations in a row but
  admits both when they overlap, and an address update is what the next lookup returns.
\<close>

section \<open>Invites\<close>

lemma write_creates:
  assumes "faults s = []" "db_ok (pool s)" "hash_token E (generate_token E rnd) \<notin> t_hash ` set (tokens (pool s))"
    and "expiry_of E c (utc_now s) = Inr exp" "run (register_write E c rnd rq) s = (Inr resp, s')"
  shows "resp = created_response c (generate_token E rnd) rq \<and>
    s' = s\<lparr>pool := with_account E (sql_now E s) exp (hash_token E (generate_token E rnd)) rq (pool s)\<rparr>"
proof (cases "rq_username rq \<in> u_name ` set (users (pool s)) \<or> to_lowercase E (rq_username rq) \<in> u_lc ` set (users (pool s))")
  case True
  with run_insert_user_taken [OF assms(1) True, of c rnd] assms(5) show ?thesis by auto
next
  case False
  with register_write_complete [OF assms(1,2) _ _ assms(3,4)] assms(5) show ?thesis by simp
qed

text \<open>A registration that was accepted passed every check and wrote the account.\<close>

lemma created_verdict:
  assumes "faults s = []" "db_ok (pool s)" "hash_token E (generate_token E rnd) \<notin> t_hash ` set (tokens (pool s))"
    and "expiry_of E (config s) (utc_now s) = Inr exp"
    and "run (register E rnd peer rq) s = (Inr (created_response c token rq), s')"
  shows "verdict (register_checks E s rq) = None" "faults s' = []" "config s' = config s"
    "pool s' = with_account E (sql_now E s) exp (hash_token E (generate_token E rnd)) rq (pool s)"
proof -
  obtain ok l where l: "allow_register peer (mono_now s) (limiter s) = (ok, l)" by fastforce
  note run = assms(5) [unfolded run_register [OF assms(1)] Let_def l prod.case]
  have "verdict (register_checks E s rq) \<noteq> Some (Inr (created_response c token rq))"
    by (simp add: register_checks_def Let_def refuse_def created_response_def json_response_def)
  then show v: "verdict (register_checks E s rq) = None" using run by (auto split: if_splits option.splits)
  then have w: "run (register_write E (config s) rnd rq) (s\<lparr>limiter := l\<rparr>) = (Inr (created_response c token rq), s')"
    using run by (auto split: if_splits)
  then show "faults s' = []" "config s' = config s"
    "pool s' = with_account E (sql_now E s) exp (hash_token E (generate_token E rnd)) rq (pool s)"
    using write_creates [OF _ _ _ _ w] assms(1-4) by (simp_all add: sql_now_def)
qed

lemma verdict_invite:
  assumes "verdict (register_checks E s rq) = None" "\<not> reg_open (cfg_registration (config s))"
  shows "\<exists>code. rq_invite_code rq = Some code \<and> invite_is_open (pool s) code"
  using assms by (auto simp: register_checks_def Let_def split: if_splits)

lemma verdict_spent:
  assumes "rq_invite_code rq = Some code" "\<not> invite_is_open (pool s) code" "\<not> reg_open (cfg_registration (config s))"
  shows "\<exists>answer. verdict (register_checks E s rq) = Some answer \<and>
    (answer = refuse (Forbidden ''invalid_invite'') \<or> (\<exists>resp. answer = Inr resp \<and> status resp = 426))"
  using assms by (simp add: register_checks_def Let_def json_response_def)

lemma account_spends:
  assumes "rq_invite_code rq = Some code"
  shows "\<not> invite_is_open (with_account E now exp h rq d) code"
proof -
  let ?f = "\<lambda>i. if i_code i = code then i\<lparr>i_used := Some (Suc (user_seq d)), i_used_at := Some now\<rparr> else i"
  have "invites (with_account E now exp h rq d) = map ?f (invites d)"
    using assms by (simp add: with_account_def Let_def)
  moreover have "i_code (?f i) \<noteq> code \<or> i_used (?f i) \<noteq> None" for i by simp
  ultimately show ?thesis unfolding invite_is_open_def set_map image_iff by (metis (no_types, lifting) imageE set_map)
qed


text \<open>The checks of a registration may all run before another registration writes.\<close>

lemma register_checked:
  assumes "faults s = []" "allow_register peer (mono_now s) (limiter s) = (True, l)"
    and "verdict (register_checks E s rq) = None" "i < length ps"
    and "(sched env req)\<^sup>*\<^sup>* (s\<lparr>limiter := l\<rparr>, ps[i := register_write E (config s) rnd rq]) c"
  shows "(sched env req)\<^sup>*\<^sup>* (s, ps[i := register E rnd peer rq]) c"
proof -
  let ?s = "s\<lparr>limiter := l\<rparr>"
  have f: "faults ?s = []" using assms(1) by simp
  have "register_checks E ?s rq = register_checks E s rq"
    by (simp add: register_checks_def too_old_def cong: option.case_cong)
  note v = assms(3) [folded this, unfolded register_checks_def Let_def]
  note stage = sched_stage [OF assms(4)]
  have lim: "run (limit_register peer) s = (Inr True, ?s)" using assms(2) by (simp add: run_limit_register)
  have ver: "run (check_version E rq) ?s = (Inr None, ?s)" using v by (simp add: run_check_version split: if_splits)
  have inv: "run (check_invite (config ?s) rq) ?s = (Inr (), ?s)"
    using v by (subst run_check_invite [OF f]) (auto split: if_splits)
  have name: "run (check_username E (config ?s) rq) ?s = (Inr (), ?s)"
    using v by (subst run_check_username) (auto simp: Let_def split: if_splits)
  have taken: "run (sql (\<lambda>s. select_user_by_lc (to_lowercase E (rq_username rq)))) ?s = (Inr None, ?s)"
    using v find_taken [of "to_lowercase E (rq_username rq)" "users (pool s)"]
    by (subst run_taken [OF f]) (auto split: if_splits)
  have free: "run (require (None = (None :: nat option)) (Conflict ''username_taken'')) ?s = (Inr (), ?s)" by (simp add: run_require)
  have key: "run (check_pubkey E rq) ?s = (Inr (), ?s)" using v by (subst run_check_pubkey) (auto split: if_splits)
  have ip: "run (check_ip (rq_ip rq)) ?s = (Inr (), ?s)" using v by (subst run_check_ip) (auto split: if_splits)
  have mail: "run (check_email (config ?s) rq) ?s = (Inr (), ?s)" using v by (subst run_check_email) (auto split: if_splits)
  have full: "run (check_max_users (config ?s)) ?s = (Inr None, ?s)"
    using v by (subst run_check_max_users [OF f]) (auto split: if_splits)
  have ok: "run (require True TooManyRequests) ?s = (Inr (), ?s)" by (simp add: run_require)
  have conf: "run (reads config) ?s = (Inr (config ?s), ?s)" by (simp add: run_reads)
  show ?thesis unfolding register_def
    apply (rule stage [OF lim], rule stage [OF ok], rule stage [OF ver], simp only: unless_response_def option.case)
    apply (rule stage [OF conf], rule stage [OF inv], rule stage [OF name], rule stage [OF taken], rule stage [OF free],
        rule stage [OF key], rule stage [OF ip], rule stage [OF mail], rule stage [OF full])
    using assms(5) by (simp add: unless_response_def)
qed


text \<open>Two registrations with one invite whose checks both run before either writes.\<close>

text \<open>C26. One invite admits two accounts when two registrations overlap: both read the invite before
  either writes, the statement that marks it does not look whether it is still open, and both answer 201.\<close>

theorem invite_race:
  assumes "faults s = []" "db_ok (pool s)" "\<not> reg_open (cfg_registration (config s))"
    and "allow_register p1 (mono_now s) (limiter s) = (True, l1)" "allow_register p2 (mono_now s) l1 = (True, l2)"
    and "verdict (register_checks E s rq1) = None" "verdict (register_checks E s rq2) = None"
    and "rq_invite_code rq2 = rq_invite_code rq1"
    and "expiry_of E (config s) (utc_now s) = Inr exp"
    and "hash_token E (generate_token E r1) \<notin> t_hash ` set (tokens (pool s))"
    and "hash_token E (generate_token E r2) \<notin> t_hash ` set (tokens (pool s))"
    and "hash_token E (generate_token E r1) \<noteq> hash_token E (generate_token E r2)"
    and "rq_username rq1 \<notin> u_name ` set (users (pool s))" "rq_username rq2 \<notin> u_name ` set (users (pool s))"
    and "to_lowercase E (rq_username rq1) \<noteq> to_lowercase E (rq_username rq2)"
  shows "\<exists>t. (sched env req)\<^sup>*\<^sup>* (s, [register E r1 p1 rq1, register E r2 p2 rq2])
      (t, [pure (created_response (config s) (generate_token E r1) rq1),
           pure (created_response (config s) (generate_token E r2) rq2)]) \<and>
     length (users (pool t)) = length (users (pool s)) + 2"
proof -
  let ?c = "config s"
  let ?w1 = "register_write E ?c r1 rq1" and ?w2 = "register_write E ?c r2 rq2"
  let ?d1 = "with_account E (sql_now E s) exp (hash_token E (generate_token E r1)) rq1 (pool s)"
  let ?d2 = "with_account E (sql_now E s) exp (hash_token E (generate_token E r2)) rq2 ?d1"
  let ?s2 = "s\<lparr>limiter := l2\<rparr>" let ?t1 = "?s2\<lparr>pool := ?d1\<rparr>" let ?t2 = "?s2\<lparr>pool := ?d2\<rparr>"
  have lc: "to_lowercase E (rq_username rq1) \<notin> u_lc ` set (users (pool s))"
    "to_lowercase E (rq_username rq2) \<notin> u_lc ` set (users (pool s))"
    using assms(6,7) by (auto simp: register_checks_def Let_def split: if_splits)
  have w1: "run ?w1 ?s2 = (Inr (created_response ?c (generate_token E r1) rq1), ?t1)"
    using register_write_complete [of ?s2 rq1 E r1 ?c exp] assms(1,2,9,10,13) lc(1) by (simp add: sql_now_def)
  have ok1: "db_ok ?d1"
    using safe_run [OF register_write_safe, of ?s2 E ?c r1 rq1] w1 assms(2) by simp
  have ne: "rq_username rq1 \<noteq> rq_username rq2" using assms(15) by auto
  have rows: "users ?d1 = users (pool s) @ [account_user E (sql_now E s) rq1 (pool s)]"
    "t_hash ` set (tokens ?d1) = insert (hash_token E (generate_token E r1)) (t_hash ` set (tokens (pool s)))"
    "users ?d2 = users ?d1 @ [account_user E (sql_now E s) rq2 ?d1]"
    by (simp_all add: with_account_def Let_def)
  have w2: "run ?w2 ?t1 = (Inr (created_response ?c (generate_token E r2) rq2), ?t2)"
    using register_write_complete [of ?t1 rq2 E r2 ?c exp] assms(1,9,11,12,14,15) lc(2) ok1 rows ne
    by (simp add: sql_now_def account_user_def)
  have writes: "(sched env req)\<^sup>*\<^sup>* (?s2, [?w1, ?w2]) (?t2, [pure (created_response ?c (generate_token E r1) rq1),
      pure (created_response ?c (generate_token E r2) rq2)])"
    using sched_run [of 0 "[?w1, ?w2]", OF _ _ w1, of env req]
      sched_run [of 1 "[pure (created_response ?c (generate_token E r1) rq1), ?w2]", OF _ _ w2, of env req] by simp
  let ?s1 = "s\<lparr>limiter := l1\<rparr>"
  have same: "register_checks E ?s1 rq2 = register_checks E s rq2"
    by (simp add: register_checks_def too_old_def cong: option.case_cong)
  have "(sched env req)\<^sup>*\<^sup>* (?s1, [?w1, register E r2 p2 rq2]) (?t2, [pure (created_response ?c (generate_token E r1) rq1),
      pure (created_response ?c (generate_token E r2) rq2)])"
    using register_checked [of ?s1 p2 l2 E rq2 1 "[?w1, ?w2]" env req r2] assms(1,5,7) same writes by simp
  then have "(sched env req)\<^sup>*\<^sup>* (s, [register E r1 p1 rq1, register E r2 p2 rq2])
      (?t2, [pure (created_response ?c (generate_token E r1) rq1), pure (created_response ?c (generate_token E r2) rq2)])"
    using register_checked [OF assms(1,4,6), of 0 "[?w1, register E r2 p2 rq2]" env req r1] by simp
  then show ?thesis using rows by (intro exI [of _ ?t2]) simp
qed

section \<open>Witnesses\<close>

definition sample_closed :: app_state where
  "sample_closed = sample_server\<lparr>
     config := sample_config\<lparr>cfg_registration := (cfg_registration sample_config)\<lparr>reg_open := False\<rparr>\<rparr>,
     pool := empty_db\<lparr>invites := [sample_invite\<lparr>i_used := None\<rparr>]\<rparr>\<rparr>"

definition sample_invited :: "string \<Rightarrow> register_req" where
  "sample_invited name = (sample_request name)\<lparr>rq_invite_code := Some ''I''\<rparr>"

lemma sample_closed_simps:
  "faults sample_closed = []" "users (pool sample_closed) = []" "tokens (pool sample_closed) = []"
  "limiter sample_closed = new_limiter" "mono_now sample_closed = 0" "utc_now sample_closed = 0"
  "\<not> reg_open (cfg_registration (config sample_closed))" "db_ok (pool sample_closed)"
  using db_ok_empty
  by (simp_all add: sample_closed_def sample_server_simps empty_db_simps db_ok_def table_ok_defs sample_invite_def)

lemma sample_closed_expiry: "expiry_of sample_ext (config sample_closed) t = Inr None"
  by (simp add: expiry_of_def sample_closed_def sample_config_def)

lemma sample_invited_verdict:
  assumes "3 \<le> char_count name" "char_count name \<le> 32"
  shows "verdict (register_checks sample_ext sample_closed (sample_invited name)) = None"
proof -
  have ext: "regex_new sample_ext r = Inr (\<lambda>s. s \<noteq> [])" "b64_decode sample_ext t = Some (as_bytes t)" for r t
    by (simp_all add: sample_ext_def)
  have "name \<noteq> []" using assms(1) by (auto simp: char_count_def)
  then show ?thesis
    using assms unfolding register_checks_def Let_def
    by (simp add: ext sample_closed_def sample_server_simps sample_invited_def sample_request_def sample_config_def too_old_def
        empty_db_simps sample_parse as_bytes_def sample_key_def invite_is_open_def sample_invite_def del: One_nat_def)
qed

lemma sample_counts: "char_count ''vasya'' = 5" "char_count ''petya'' = 5"
  by code_simp+

lemma sample_second: "allow_register ip 0 \<lparr>rl_register = [(ip, [0])], rl_lookup = []\<rparr> =
    (True, \<lparr>rl_register = [(ip, [0, 0])], rl_lookup = []\<rparr>)"
  by (simp add: allow_register_def check_def times_of_def secs_def)

lemma sample_hashes: "hash_token sample_ext (generate_token sample_ext []) \<noteq> hash_token sample_ext (generate_token sample_ext [0])"
  using length_sample_hash [of "[]"] length_sample_hash [of "[0]"] by auto


theorem invite_race_witness:
  "\<exists>t. (sched (\<lambda>_ _. False) (\<lambda>_. False))\<^sup>*\<^sup>*
      (sample_closed, [register sample_ext [] (V4 0) (sample_invited ''vasya''),
                       register sample_ext [0] (V4 0) (sample_invited ''petya'')])
      (t, [pure (created_response (config sample_closed) (generate_token sample_ext []) (sample_invited ''vasya'')),
           pure (created_response (config sample_closed) (generate_token sample_ext [0]) (sample_invited ''petya''))]) \<and>
     length (users (pool t)) = length (users (pool sample_closed)) + 2"
proof -
  have v: "verdict (register_checks sample_ext sample_closed (sample_invited ''vasya'')) = None"
    "verdict (register_checks sample_ext sample_closed (sample_invited ''petya'')) = None"
    by (rule sample_invited_verdict; simp add: sample_counts)+
  have l: "allow_register (V4 0) (mono_now sample_closed) (limiter sample_closed) =
      (True, \<lparr>rl_register = [(V4 0, [0])], rl_lookup = []\<rparr>)"
    "allow_register (V4 0) (mono_now sample_closed) \<lparr>rl_register = [(V4 0, [0])], rl_lookup = []\<rparr> =
      (True, \<lparr>rl_register = [(V4 0, [0, 0])], rl_lookup = []\<rparr>)"
    by (simp_all add: sample_closed_simps sample_limiter sample_second)
  have names: "rq_username (sample_invited n) = n" "rq_invite_code (sample_invited n) = Some ''I''" for n
    by (simp_all add: sample_invited_def sample_request_def)
  show ?thesis
    by (rule invite_race [OF _ _ _ l v]) (simp_all add: sample_closed_simps sample_closed_expiry sample_hashes names
        sample_lc sample_lower)
qed

section \<open>Address updates\<close>

lemma upsert_own_presence:
  assumes "uid \<in> user_ids d"
  shows "fst (upsert_presence uid ip port now d) = Inr () \<and>
    \<lparr>p_user = uid, p_ip = ip, p_port = port, p_seen = now\<rparr> \<in> set (presence (snd (upsert_presence uid ip port now d))) \<and>
    users (snd (upsert_presence uid ip port now d)) = users d"
proof (cases "uid \<in> p_user ` set (presence d)")
  case True
  then obtain p where p: "p \<in> set (presence d)" "p_user p = uid" by blast
  then have "\<lparr>p_user = uid, p_ip = ip, p_port = port, p_seen = now\<rparr> \<in>
      (\<lambda>p. if p_user p = uid then p\<lparr>p_ip := ip, p_port := port, p_seen := now\<rparr> else p) ` set (presence d)"
    by (intro rev_image_eqI [OF p(1)]) simp
  then show ?thesis using True by (simp add: upsert_presence_def)
next
  case False
  then show ?thesis using assms by (simp add: upsert_presence_def insert_presence_def set_insort_key)
qed

text \<open>After \<open>/update\<close> a lookup of the account returns the new address and port and the time
  of the update as \<open>last_seen\<close>.\<close>

theorem update_then_lookup:
  assumes "faults s = []" "db_ok (pool s)" "run (resolve_token E hs) s = (Inr (u_id u), s)"
    and "parse_ip_addr (up_ip rq) \<noteq> None" "u \<in> set (users (pool s))" "u_lc u = to_lowercase E name"
    and "allow_lookup peer (mono_now s) (limiter s) = (True, l)"
  shows "\<exists>s' online. run (update_presence E hs rq) s = (Inr ok_json, s') \<and>
    run (lookup E peer name) s' = (Inr (lookup_json u
      \<lparr>p_user = u_id u, p_ip = up_ip rq, p_port = unat (up_port rq), p_seen = sql_now E s\<rparr> online), s'\<lparr>limiter := l\<rparr>)"
proof -
  let ?d = "snd (upsert_presence (u_id u) (up_ip rq) (unat (up_port rq)) (sql_now E s) (pool s))"
  let ?s = "s\<lparr>pool := ?d\<rparr>"
  let ?p = "\<lparr>p_user = u_id u, p_ip = up_ip rq, p_port = unat (up_port rq), p_seen = sql_now E s\<rparr>"
  obtain ip where ip: "parse_ip_addr (up_ip rq) = Some ip" using assms(4) by blast
  have uid: "u_id u \<in> user_ids (pool s)" using assms(5) by (simp add: user_ids_def)
  note own = upsert_own_presence [OF uid, of "up_ip rq" "unat (up_port rq)" "sql_now E s"]
  have "run (update_presence E hs rq) s = (Inr ok_json, ?s)"
    using own assms(1) ip unfolding update_presence_def run_pbind assms(3)
    by (simp add: run_check_ip run_pbind run_sql_ok run_pure)
  moreover have ok: "db_ok (pool ?s)" using db_ok_upsert_presence [OF assms(2)] by simp
  moreover obtain q where "List.find (\<lambda>r. p_ip r = p_ip ?p) (presence (pool ?s)) = Some q"
    using own find_NoneD [of "\<lambda>r. p_ip r = p_ip ?p" "presence ?d" ?p] by fastforce
  then have "run (lookup E peer name) ?s = (Inr (lookup_json u ?p (online_since E ?s q)), ?s\<lparr>limiter := l\<rparr>)"
    using own assms(1,5-7) by (intro run_lookup [OF _ ok]) simp_all
  ultimately show ?thesis by blast
qed

theorem update_then_lookup_witness:
  "\<exists>s' online. run (update_presence sample_ext (bearer sample_token) \<lparr>up_ip = show_v4 1 2 3 4, up_port = 9\<rparr>) sample_home =
       (Inr ok_json, s') \<and>
     fst (run (lookup sample_ext (V4 0) ''vasya'') s') = Inr (lookup_json (sample_user 1 ''vasya'')
       \<lparr>p_user = 1, p_ip = show_v4 1 2 3 4, p_port = 9, p_seen = sql_now sample_ext sample_home\<rparr> online)"
proof -
  have auth: "run (resolve_token sample_ext (bearer sample_token)) sample_home = (Inr (u_id (sample_user 1 ''vasya'')), sample_home)"
    by (simp add: sample_auth sample_user_def)
  have "\<exists>s' online. run (update_presence sample_ext (bearer sample_token) \<lparr>up_ip = show_v4 1 2 3 4, up_port = 9\<rparr>) sample_home =
       (Inr ok_json, s') \<and>
     run (lookup sample_ext (V4 0) ''vasya'') s' = (Inr (lookup_json (sample_user 1 ''vasya'')
       \<lparr>p_user = u_id (sample_user 1 ''vasya''), p_ip = up_ip \<lparr>up_ip = show_v4 1 2 3 4, up_port = 9\<rparr>,
         p_port = unat (up_port \<lparr>up_ip = show_v4 1 2 3 4, up_port = 9\<rparr>), p_seen = sql_now sample_ext sample_home\<rparr> online),
       s'\<lparr>limiter := \<lparr>rl_register = [], rl_lookup = [(V4 0, [0])]\<rparr>\<rparr>)"
    using sample_parse
    by (intro update_then_lookup [OF _ _ auth])
      (simp_all add: sample_db_ok sample_lookup_limiter sample_db_simps sample_lc sample_lower sample_user_def
        del: One_nat_def)
  then show ?thesis by (auto simp: sample_user_def)
qed

section \<open>Two refreshes of one account\<close>

text \<open>What is left of a refresh that has counted the tokens.\<close>

definition refresh_counted :: "'v ext \<Rightarrow> bytes \<Rightarrow> nat \<Rightarrow> nat \<Rightarrow> response handler" where
  "refresh_counted E rnd uid cnt =
     pbind (reads config) (\<lambda>c.
     pbind (if unat (max_per_user (cfg_tokens c)) \<le> cnt then sql (\<lambda>s. delete_oldest_token uid) else pure ()) (\<lambda>_.
     pbind (issue_token E c rnd uid) (\<lambda>token. pure (json_response 200 [(''token'', JStr token)]))))"

lemma token_refresh_counted:
  "token_refresh E rnd hs =
     pbind (resolve_token E hs) (\<lambda>uid. pbind (sql (\<lambda>s. count_tokens uid)) (refresh_counted E rnd uid))"
  by (simp add: token_refresh_def refresh_counted_def [abs_def])

text \<open>Counting the tokens of an account and inserting one are separate statements: two overlapping refreshes of
  an account one token below \<open>max_per_user\<close> both find room, and leave it with one token too many.\<close>

theorem token_limit_race:
  assumes "faults s = []" "db_ok (pool s)"
    and "run (resolve_token E h1) s = (Inr uid, s)" "run (resolve_token E h2) s = (Inr uid, s)"
    and "hash_token E (generate_token E r1) \<notin> t_hash ` set (tokens (pool s))"
    and "hash_token E (generate_token E r2) \<notin> t_hash ` set (tokens (pool s))"
    and "hash_token E (generate_token E r1) \<noteq> hash_token E (generate_token E r2)"
    and "expiry_of E (config s) (utc_now s) = Inr exp"
    and "unat (max_per_user (cfg_tokens (config s))) = Suc (length (tokens_of uid (pool s)))"
  shows "\<exists>t. (sched env req)\<^sup>*\<^sup>* (s, [token_refresh E r1 h1, token_refresh E r2 h2])
      (t, [pure (json_response 200 [(''token'', JStr (generate_token E r1))]),
           pure (json_response 200 [(''token'', JStr (generate_token E r2))])]) \<and>
    length (tokens_of uid (pool t)) = Suc (unat (max_per_user (cfg_tokens (config s))))"
proof -
  let ?n = "length (tokens_of uid (pool s))"
  let ?a = "pure (json_response 200 [(''token'', JStr (generate_token E r1))]) :: response handler"
  let ?b = "pure (json_response 200 [(''token'', JStr (generate_token E r2))]) :: response handler"
  let ?s1 = "s\<lparr>pool := refreshed E r2 exp uid s (pool s)\<rparr>"
  let ?s2 = "?s1\<lparr>pool := refreshed E r1 exp uid s (pool ?s1)\<rparr>"
  have uid: "uid \<in> user_ids (pool s)"
    using resolve_tokenD [OF assms(1,3)] assms(2) by (auto simp: db_ok_def tokens_ok_def)
  have count: "run (sql (\<lambda>s. count_tokens uid)) s = (Inr ?n, s)"
    by (simp add: count_tokens_def run_sql_query assms(1) tokens_of_def)
  have second: "run (token_refresh E r2 h2) s = (Inr (json_response 200 [(''token'', JStr (generate_token E r2))]), ?s1)"
    using run_token_refresh [OF assms(1,2,4,6,8)] assms(9) by simp
  have "uid \<in> user_ids (pool ?s1)" "hash_token E (generate_token E r1) \<notin> t_hash ` set (tokens (pool ?s1))"
    using uid assms(5,7) by (simp_all add: refreshed_def user_ids_def)
  then have first: "run (refresh_counted E r1 uid ?n) ?s1 = (Inr (json_response 200 [(''token'', JStr (generate_token E r1))]), ?s2)"
    using assms(1,8,9)
    by (simp add: refresh_counted_def run_simps run_issue_token) (simp add: refreshed_def sql_now_def)
  let ?K = "refresh_counted E r1 uid ?n" let ?R = "token_refresh E r2 h2"
  have "(sched env req)\<^sup>*\<^sup>* (s, [?K, ?R]) (?s2, [?a, ?b])"
    using sched_run [of 1 "[?K, ?R]", OF _ _ second, of env req] sched_run [of 0 "[?K, ?b]", OF _ _ first, of env req] by simp
  then have "(sched env req)\<^sup>*\<^sup>* (s, [pbind (sql (\<lambda>s. count_tokens uid)) (refresh_counted E r1 uid), ?R]) (?s2, [?a, ?b])"
    using sched_stage [of 0 "[?K, ?R]", OF _ count, where k = "refresh_counted E r1 uid" and env = env and req = req] by simp
  then have "(sched env req)\<^sup>*\<^sup>* (s, [token_refresh E r1 h1, ?R]) (?s2, [?a, ?b])"
    using sched_stage [of 0 "[?K, ?R]", OF _ assms(3), where env = env and req = req
        and k = "\<lambda>uid. pbind (sql (\<lambda>s. count_tokens uid)) (refresh_counted E r1 uid)"]
    by (simp add: token_refresh_counted)
  moreover have "length (tokens_of uid (pool ?s2)) = Suc (Suc ?n)" by (simp add: refreshed_def tokens_of_def)
  ultimately show ?thesis using assms(9) by (intro exI [of _ ?s2]) simp
qed

theorem token_limit_race_witness:
  "\<exists>t. (sched (\<lambda>_ _. False) (\<lambda>_. False))\<^sup>*\<^sup>*
      (sample_home\<lparr>config := sample_config\<lparr>cfg_tokens := \<lparr>ttl_days = 0, max_per_user = 2\<rparr>\<rparr>\<rparr>,
       [token_refresh sample_ext [1] (bearer sample_token), token_refresh sample_ext [] (bearer sample_token)])
      (t, [pure (json_response 200 [(''token'', JStr (generate_token sample_ext [1]))]),
           pure (json_response 200 [(''token'', JStr (generate_token sample_ext []))])]) \<and>
    length (tokens_of 1 (pool t)) = 3"
proof -
  let ?s = "sample_home\<lparr>config := sample_config\<lparr>cfg_tokens := \<lparr>ttl_days = 0, max_per_user = 2\<rparr>\<rparr>\<rparr>"
  have auth: "run (resolve_token sample_ext (bearer sample_token)) ?s = (Inr 1, ?s)"
    using sample_auth by (simp add: run_resolve_token sql_now_def split: sum.splits option.splits)
  have ne: "hash_token sample_ext (generate_token sample_ext [1]) \<noteq> hash_token sample_ext (generate_token sample_ext [])"
    using length_sample_hash [of "[1]"] length_sample_hash [of "[]"] by auto
  have exp: "expiry_of sample_ext (config ?s) (utc_now ?s) = Inr None" by (simp add: expiry_of_def)
  have room: "unat (max_per_user (cfg_tokens (config ?s))) = Suc (length (tokens_of 1 (pool ?s)))"
    by (simp add: sample_tokens_of del: One_nat_def)
  obtain t where "(sched (\<lambda>_ _. False) (\<lambda>_. False))\<^sup>*\<^sup>*
      (?s, [token_refresh sample_ext [1] (bearer sample_token), token_refresh sample_ext [] (bearer sample_token)])
      (t, [pure (json_response 200 [(''token'', JStr (generate_token sample_ext [1]))]),
           pure (json_response 200 [(''token'', JStr (generate_token sample_ext []))])])"
    "length (tokens_of 1 (pool t)) = Suc (unat (max_per_user (cfg_tokens (config ?s))))"
    using token_limit_race [OF _ _ auth auth _ _ ne exp room] sample_fresh [of "[1]"] sample_fresh [of "[]"]
    by (force simp: sample_db_ok)
  then show ?thesis by auto
qed

end
