(* ===== verification/Directory_Spec.thy ===== *)
theory Directory_Spec
  imports Account_Flows
begin

text \<open>
  The abstract specification of discovery mode: a directory is a map from lower-case names to accounts, each with
  name, key, mail, address and tokens, and the handlers are five operations on it. \<open>directory\<close> reads the map off the
  tables, one lemma per statement shows that the statement is the operation, and the handlers refine it.
\<close>

section \<open>The directory as a map\<close>

text \<open>An account: its address is IP, port and time of the last sign of life, a token is hash, creation and expiry.\<close>

record account =
  ac_name :: string
  ac_pubkey :: string
  ac_email :: "string option"
  ac_addr :: "(string \<times> nat \<times> string) option"
  ac_tokens :: "(string \<times> string \<times> string option) list"

type_synonym directory = "string \<rightharpoonup> account"

definition token_entry :: "token_row \<Rightarrow> string \<times> string \<times> string option" where
  "token_entry t = (t_hash t, t_created t, t_expires t)"

definition addr_entry :: "presence_row \<Rightarrow> string \<times> nat \<times> string" where
  "addr_entry p = (p_ip p, p_port p, p_seen p)"

definition account_of :: "db \<Rightarrow> user_row \<Rightarrow> account" where
  "account_of d u =
     \<lparr>ac_name = u_name u, ac_pubkey = u_pubkey u, ac_email = u_email u,
      ac_addr = map_option addr_entry (List.find (\<lambda>p. p_user p = u_id u) (presence d)),
      ac_tokens = map token_entry (tokens_of (u_id u) d)\<rparr>"

definition directory :: "db \<Rightarrow> directory" where
  "directory d lc = map_option (account_of d) (List.find (\<lambda>u. u_lc u = lc) (users d))"

text \<open>The five operations. \<open>spec_refresh\<close> drops the first of the oldest tokens when there are \<open>limit\<close> of them.\<close>

definition spec_register :: "string \<Rightarrow> account \<Rightarrow> directory \<Rightarrow> directory" where
  "spec_register lc a D = D(lc \<mapsto> a)"

definition spec_unregister :: "string \<Rightarrow> directory \<Rightarrow> directory" where
  "spec_unregister lc D = D(lc := None)"

definition on_account :: "(account \<Rightarrow> account) \<Rightarrow> string \<Rightarrow> directory \<Rightarrow> directory" where
  "on_account f lc D = D(lc := map_option f (D lc))"

definition spec_update :: "string \<times> nat \<times> string \<Rightarrow> string \<Rightarrow> directory \<Rightarrow> directory" where
  "spec_update addr = on_account (\<lambda>a. a\<lparr>ac_addr := Some addr\<rparr>)"

definition spec_heartbeat :: "string \<Rightarrow> string \<Rightarrow> directory \<Rightarrow> directory" where
  "spec_heartbeat now = on_account (\<lambda>a. a\<lparr>ac_addr := map_option (\<lambda>(ip, port, _). (ip, port, now)) (ac_addr a)\<rparr>)"

definition evict_oldest :: "(string \<times> string \<times> 'e) list \<Rightarrow> (string \<times> string \<times> 'e) list" where
  "evict_oldest ts = (case sort_key (fst \<circ> snd) ts of [] \<Rightarrow> [] | t # _ \<Rightarrow> filter (\<lambda>x. fst x \<noteq> fst t) ts)"

definition spec_refresh :: "nat \<Rightarrow> string \<times> string \<times> string option \<Rightarrow> string \<Rightarrow> directory \<Rightarrow> directory" where
  "spec_refresh limit t = on_account (\<lambda>a. a\<lparr>ac_tokens :=
     (if limit \<le> length (ac_tokens a) then evict_oldest (ac_tokens a) else ac_tokens a) @ [t]\<rparr>)"

section \<open>The statements on the map\<close>



lemma directory_user:
  assumes "db_ok d" "u \<in> set (users d)"
  shows "directory d (u_lc u) = Some (account_of d u)"
  using user_lc.find_row [OF assms] by (simp add: directory_def)

lemma directory_Some:
  "db_ok d \<Longrightarrow> directory d lc = Some a \<longleftrightarrow> (\<exists>u \<in> set (users d). u_lc u = lc \<and> a = account_of d u)"
  by (auto simp: directory_def user_lc.find_iff)

text \<open>A change of the rows of one user.\<close>

lemma directory_on:
  assumes "db_ok d" "u \<in> set (users d)" "users d' = users d"
    and "account_of d' u = f (account_of d u)"
    and "\<And>v. u_id v \<noteq> u_id u \<Longrightarrow> account_of d' v = account_of d v"
  shows "directory d' = on_account f (u_lc u) (directory d)"
proof
  fix lc
  show "directory d' lc = on_account f (u_lc u) (directory d) lc"
  proof (cases "lc = u_lc u")
    case True
    then show ?thesis
      using user_lc.find_row [OF assms(1,2)] assms(3,4) by (simp add: on_account_def directory_def)
  next
    case False
    have "account_of d' v = account_of d v" if "List.find (\<lambda>u. u_lc u = lc) (users d) = Some v" for v
    proof (rule assms(5))
      have v: "v \<in> set (users d)" "u_lc v = lc" using find_SomeD [OF that] by simp_all
      show "u_id v \<noteq> u_id u" using user_id.same_key [OF assms(1) v(1) assms(2)] v(2) False by auto
    qed
    then show ?thesis using False assms(3)
      by (cases "List.find (\<lambda>u. u_lc u = lc) (users d)") (simp_all add: on_account_def directory_def)
  qed
qed

lemma directory_update:
  assumes "db_ok d" "u \<in> set (users d)"
  shows "directory (snd (upsert_presence (u_id u) ip port now d)) = spec_update (ip, port, now) (u_lc u) (directory d)"
  unfolding spec_update_def
proof (rule directory_on [OF assms])
  let ?d = "snd (upsert_presence (u_id u) ip port now d)"
  have uid: "u_id u \<in> user_ids d" using assms(2) by (simp add: user_ids_def)
  note own = upsert_own_presence [OF uid, of ip port now]
  show "users ?d = users d" using own by simp
  have t: "tokens ?d = tokens d" by (simp add: upsert_presence_def insert_presence_def)
  have "List.find (\<lambda>p. p_user p = u_id u) (presence ?d) = Some \<lparr>p_user = u_id u, p_ip = ip, p_port = port, p_seen = now\<rparr>"
    using presence_user.find_row [OF db_ok_upsert_presence [OF assms(1)] conjunct1 [OF conjunct2 [OF own]]] by simp
  then show "account_of ?d u = account_of d u\<lparr>ac_addr := Some (ip, port, now)\<rparr>"
    by (simp add: account_of_def addr_entry_def tokens_of_def t)
  show "account_of ?d v = account_of d v" if "u_id v \<noteq> u_id u" for v
  proof -
    have "List.find (\<lambda>p. p_user p = u_id v) (presence ?d) = List.find (\<lambda>p. p_user p = u_id v) (presence d)"
      using that by (simp add: upsert_presence_def insert_presence_def find_insort find_map_other)
    then show ?thesis by (simp add: account_of_def tokens_of_def t)
  qed
qed

lemma directory_heartbeat:
  assumes "db_ok d" "u \<in> set (users d)"
  shows "directory (snd (touch_presence (u_id u) now d)) = spec_heartbeat now (u_lc u) (directory d)"
  unfolding spec_heartbeat_def
proof (rule directory_on [OF assms])
  let ?f = "\<lambda>p. if p_user p = u_id u then p\<lparr>p_seen := now\<rparr> else p"
  have "List.find (\<lambda>p. p_user p = u_id u) (map ?f (presence d)) = map_option ?f (List.find (\<lambda>p. p_user p = u_id u) (presence d))"
    by (rule find_map) simp
  then show "account_of (snd (touch_presence (u_id u) now d)) u =
      account_of d u\<lparr>ac_addr := map_option (\<lambda>(ip, port, _). (ip, port, now)) (ac_addr (account_of d u))\<rparr>"
    by (cases "List.find (\<lambda>p. p_user p = u_id u) (presence d)")
      (auto simp: account_of_def touch_presence_def tokens_of_def addr_entry_def dest: find_SomeD)
  show "account_of (snd (touch_presence (u_id u) now d)) v = account_of d v" if "u_id v \<noteq> u_id u" for v
    using that by (simp add: account_of_def touch_presence_def tokens_of_def find_map_other)
qed (simp add: touch_presence_def)

lemma directory_unregister:
  assumes "db_ok d" "u \<in> set (users d)"
  shows "directory (snd (delete_user (u_id u) d)) = spec_unregister (u_lc u) (directory d)"
proof
  fix lc
  let ?d = "snd (delete_user (u_id u) d)"
  have acc: "account_of ?d v = account_of d v" if "u_id v \<noteq> u_id u" for v
  proof -
    have "List.find (\<lambda>p. p_user p = u_id v) (filter (\<lambda>p. p_user p \<noteq> u_id u) (presence d)) =
        List.find (\<lambda>p. p_user p = u_id v) (presence d)" by (rule find_filter) (use that in auto)
    moreover have "filter (\<lambda>t. t_user t \<noteq> u_id u \<and> t_user t = u_id v) (tokens d) = filter (\<lambda>t. t_user t = u_id v) (tokens d)"
      by (rule filter_cong) (use that in auto)
    ultimately show ?thesis by (simp add: account_of_def delete_user_def tokens_of_def)
  qed
  show "directory ?d lc = spec_unregister (u_lc u) (directory d) lc"
  proof (cases "lc = u_lc u")
    case True
    have "v = u" if "v \<in> set (users d)" "u_lc v = u_lc u" for v
      using user_lc.same_key [OF assms(1) that(1) assms(2) that(2)] .
    then have "List.find (\<lambda>v. u_lc v = u_lc u) (users ?d) = None"
      by (auto simp: find_None_iff delete_user_def)
    then show ?thesis using True by (simp add: directory_def spec_unregister_def)
  next
    case False
    then have "u_id v \<noteq> u_id u" if "v \<in> set (users d)" "u_lc v = lc" for v
      using user_id.same_key [OF assms(1) that(1) assms(2)] that(2) by auto
    then have f: "List.find (\<lambda>v. u_lc v = lc) (users ?d) = List.find (\<lambda>v. u_lc v = lc) (users d)"
      "\<And>v. List.find (\<lambda>v. u_lc v = lc) (users d) = Some v \<Longrightarrow> u_id v \<noteq> u_id u"
      by (auto simp: delete_user_def find_filter dest!: find_SomeD)
    then show ?thesis using False acc
      by (cases "List.find (\<lambda>v. u_lc v = lc) (users d)") (simp_all add: directory_def spec_unregister_def)
  qed
qed

text \<open>Registration: the account that is written.\<close>

definition new_account :: "'v ext \<Rightarrow> string \<Rightarrow> string option \<Rightarrow> string \<Rightarrow> register_req \<Rightarrow> account" where
  "new_account E now exp hash rq =
     \<lparr>ac_name = rq_username rq, ac_pubkey = rq_pubkey rq, ac_email = rq_email rq,
      ac_addr = Some (rq_ip rq, unat (rq_port rq), now), ac_tokens = [(hash, now, exp)]\<rparr>"

lemma directory_register:
  assumes "db_ok d" "to_lowercase E (rq_username rq) \<notin> u_lc ` set (users d)"
  shows "directory (with_account E now exp hash rq d) =
    spec_register (to_lowercase E (rq_username rq)) (new_account E now exp hash rq) (directory d)"
proof
  fix lc
  let ?u = "account_user E now rq d" and ?d = "with_account E now exp hash rq d"
  have rows: "users ?d = users d @ [?u]" "u_lc ?u = to_lowercase E (rq_username rq)" "u_id ?u = Suc (user_seq d)"
    "presence ?d = insort_key p_user \<lparr>p_user = Suc (user_seq d), p_ip = rq_ip rq, p_port = unat (rq_port rq), p_seen = now\<rparr> (presence d)"
    "tokens ?d = tokens d @ [\<lparr>t_id = Suc (token_seq d), t_user = Suc (user_seq d), t_hash = hash, t_created = now, t_expires = exp\<rparr>]"
    by (simp_all add: with_account_def Let_def account_user_def)
  have fresh: "Suc (user_seq d) \<notin> p_user ` set (presence d)" using fresh_user_id [OF assms(1)] by simp
  have no_tokens: "tokens_of (Suc (user_seq d)) d = []"
    using fresh_user_id [OF assms(1)] assms(1) by (auto simp: tokens_of_def filter_empty_conv db_ok_def tokens_ok_def)
  have old: "account_of ?d v = account_of d v" if "v \<in> set (users d)" for v
  proof -
    have "u_id v \<noteq> Suc (user_seq d)" using fresh_user_id [OF assms(1)] that by (metis image_eqI user_ids_def)
    then show ?thesis by (simp add: account_of_def rows find_insort tokens_of_def)
  qed
  show "directory ?d lc = spec_register (to_lowercase E (rq_username rq)) (new_account E now exp hash rq) (directory d) lc"
  proof (cases "lc = to_lowercase E (rq_username rq)")
    case True
    have "List.find (\<lambda>u. u_lc u = lc) (users d) = None" using assms(2) True by (auto simp: find_None_iff image_iff)
    then have "List.find (\<lambda>u. u_lc u = lc) (users ?d) = Some ?u" using True rows(1,2) by (simp add: find_append)
    then show ?thesis using True no_tokens fresh
      by (simp add: directory_def spec_register_def account_of_def rows(3-5) find_insort_own new_account_def addr_entry_def
          token_entry_def tokens_of_def)
        (simp add: account_user_def)
  next
    case False
    then have "List.find (\<lambda>u. u_lc u = lc) (users ?d) = List.find (\<lambda>u. u_lc u = lc) (users d)"
      by (simp add: rows find_append split: option.split)
    then show ?thesis using False old
      by (auto simp: directory_def spec_register_def dest: find_SomeD split: option.split)
        (cases "List.find (\<lambda>u. u_lc u = lc) (users d)"; auto dest: find_SomeD)
  qed
qed

text \<open>Refreshing: the token evicted is the first of the oldest.\<close>



lemma evict_tokens:
  assumes "db_ok d"
  shows "map token_entry (tokens_of uid (snd (delete_oldest_token uid d))) = evict_oldest (map token_entry (tokens_of uid d))"
proof -
  have k: "(\<lambda>a. (fst \<circ> snd) (token_entry a)) = t_created" by (auto simp: token_entry_def)
  show ?thesis
  proof (cases "sort_key t_created (tokens_of uid d)")
    case Nil
    then have "tokens_of uid d = []" by (metis set_empty set_sort)
    then show ?thesis by (simp add: evict_oldest_def delete_oldest_token_def) (simp add: tokens_of_def filter_empty_conv)
  next
    case (Cons t ts)
    then have t: "t \<in> set (tokens_of uid d)" by (metis list.set_intros(1) set_sort)
    then have td: "t \<in> set (tokens d)" by (simp add: tokens_of_def)
    have o: "oldest_token uid d = Some (t_id t)" using Cons by (simp add: oldest_token_def tokens_of_def)
    have same: "t_id x = t_id t \<longleftrightarrow> t_hash x = t_hash t" if "x \<in> set (tokens d)" for x
      using token_id.same_key [OF assms that td] token_hash.same_key [OF assms that td] by auto
    have "tokens_of uid (snd (delete_oldest_token uid d)) = filter (\<lambda>x. t_hash x \<noteq> t_hash t) (tokens_of uid d)"
      using o same by (auto simp: tokens_of_def delete_oldest_token_def intro!: filter_cong)
    moreover have "evict_oldest (map token_entry (tokens_of uid d)) = filter (\<lambda>x. fst x \<noteq> t_hash t) (map token_entry (tokens_of uid d))"
      using Cons by (simp add: evict_oldest_def sort_key_map k) (simp add: token_entry_def)
    ultimately show ?thesis by (simp add: filter_map comp_def token_entry_def)
  qed
qed

lemma other_tokens:
  assumes "db_ok d" "uid' \<noteq> uid"
  shows "tokens_of uid' (snd (delete_oldest_token uid d)) = tokens_of uid' d"
proof -
  have "t_user t = uid" if "oldest_token uid d = Some (t_id t)" "t \<in> set (tokens d)" for t
    using oldest_tokenD [OF that(1)] token_id.same_key [OF assms(1) that(2)] by metis
  then show ?thesis using assms(2) by (auto simp: tokens_of_def delete_oldest_token_def intro!: filter_cong)
qed

lemma directory_refresh:
  assumes "db_ok d" "u \<in> set (users d)"
  shows "directory (refreshed E rnd exp (u_id u) s (if limit \<le> length (tokens_of (u_id u) d)
      then snd (delete_oldest_token (u_id u) d) else d)) =
    spec_refresh limit (hash_token E (generate_token E rnd), sql_now E s, exp) (u_lc u) (directory d)"
  unfolding spec_refresh_def
proof (rule directory_on [OF assms])
  let ?d = "if limit \<le> length (tokens_of (u_id u) d) then snd (delete_oldest_token (u_id u) d) else d"
  let ?r = "refreshed E rnd exp (u_id u) s ?d"
  have frame: "users ?r = users d" "presence ?r = presence d" by (simp_all add: refreshed_def delete_oldest_token_def)
  then show "users ?r = users d" by simp
  have "map token_entry (tokens_of (u_id u) ?r) = (if limit \<le> length (map token_entry (tokens_of (u_id u) d))
      then evict_oldest (map token_entry (tokens_of (u_id u) d)) else map token_entry (tokens_of (u_id u) d)) @
      [(hash_token E (generate_token E rnd), sql_now E s, exp)]"
    using evict_tokens [OF assms(1), of "u_id u"] by (simp add: refreshed_def tokens_of_def token_entry_def)
  then show "account_of ?r u = account_of d u\<lparr>ac_tokens := (if limit \<le> length (ac_tokens (account_of d u))
      then evict_oldest (ac_tokens (account_of d u)) else ac_tokens (account_of d u)) @
      [(hash_token E (generate_token E rnd), sql_now E s, exp)]\<rparr>"
    by (simp add: account_of_def frame)
  show "account_of ?r v = account_of d v" if "u_id v \<noteq> u_id u" for v
  proof -
    have "tokens_of (u_id v) ?r = tokens_of (u_id v) ?d" using that by (simp add: refreshed_def tokens_of_def)
    also have "\<dots> = tokens_of (u_id v) d" using other_tokens [OF assms(1) that] by simp
    finally have "tokens_of (u_id v) ?r = tokens_of (u_id v) d" .
    then show ?thesis by (simp add: account_of_def frame)
  qed
qed


section \<open>The handlers implement it\<close>

abbreviation new_directory :: "('e + 'a) \<times> app_state \<Rightarrow> directory" where
  "new_directory r \<equiv> directory (pool (snd r))"

lemma run_update:
  assumes "faults s = []" "run (resolve_token E hs) s = (Inr uid, s)" "uid \<in> user_ids (pool s)"
  shows "run (update_presence E hs rq) s =
    (if parse_ip_addr (up_ip rq) = None then (refuse (BadRequest ''invalid ip''), s)
     else (Inr ok_json, s\<lparr>pool := snd (upsert_presence uid (up_ip rq) (unat (up_port rq)) (sql_now E s) (pool s))\<rparr>))"
  using assms upsert_own_presence [OF assms(3)] by (simp add: update_presence_def run_simps run_check_ip run_sql_ok refuse_def)

lemma run_heartbeat:
  "faults s = [] \<Longrightarrow> run (resolve_token E hs) s = (Inr uid, s) \<Longrightarrow>
     run (heartbeat E hs) s = (Inr ok_json, s\<lparr>pool := snd (touch_presence uid (sql_now E s) (pool s))\<rparr>)"
  by (simp add: heartbeat_def run_simps run_sql_ok touch_presence_def)

lemma created_name_free:
  assumes "faults s = []" "run (register E rnd peer rq) s = (Inr resp, s')" "status resp = 201"
  shows "to_lowercase E (rq_username rq) \<notin> u_lc ` set (users (pool s))"
proof
  assume "to_lowercase E (rq_username rq) \<in> u_lc ` set (users (pool s))"
  then show False
    using assms run_insert_user_taken [of _ rq E "config s" rnd]
    by (auto simp: run_register [OF assms(1)] Let_def register_checks_def refuse_def json_response_def
        split: if_splits prod.splits)
qed

text \<open>The accepted registration, and the four requests of a bearer that resolves.\<close>

lemma refines_register:
  assumes "faults s = []" "db_ok (pool s)" "hash_token E (generate_token E rnd) \<notin> t_hash ` set (tokens (pool s))"
    and "expiry_of E (config s) (utc_now s) = Inr exp"
  shows "case fst (run (register E rnd peer rq) s) of
      Inl e \<Rightarrow> new_directory (run (register E rnd peer rq) s) = directory (pool s)
    | Inr resp \<Rightarrow>
        if status resp = 201
        then directory (pool s) (to_lowercase E (rq_username rq)) = None \<and>
          new_directory (run (register E rnd peer rq) s) = spec_register (to_lowercase E (rq_username rq))
            (new_account E (sql_now E s) exp (hash_token E (generate_token E rnd)) rq) (directory (pool s))
        else new_directory (run (register E rnd peer rq) s) = directory (pool s)"
proof -
  obtain r s' where run: "run (register E rnd peer rq) s = (r, s')" by fastforce
  note out = register_outcome [OF assms run]
  show ?thesis
  proof (cases r)
    case (Inl e)
    then show ?thesis using run out by auto
  next
    case (Inr resp)
    show ?thesis
    proof (cases "status resp = 201")
      case True
      note free = created_name_free [OF assms(1) run [unfolded Inr] True]
      moreover have "directory (pool s) (to_lowercase E (rq_username rq)) = None"
        using free by (auto simp: directory_def find_None_iff image_iff)
      moreover have "pool s' = with_account E (sql_now E s) exp (hash_token E (generate_token E rnd)) rq (pool s)"
        using out Inr True by auto
      ultimately show ?thesis using run Inr True directory_register [OF assms(2) free] by simp
    next
      case False
      then show ?thesis using run Inr out by (auto simp: created_response_def json_response_def)
    qed
  qed
qed

text \<open>The four requests with the headers \<open>hs\<close> act on the account \<open>lc\<close> as the operations say.\<close>

definition bearer_refines :: "'v ext \<Rightarrow> bytes \<Rightarrow> headers \<Rightarrow> update_req \<Rightarrow> string option \<Rightarrow> app_state \<Rightarrow> string \<Rightarrow> bool" where
  "bearer_refines E rnd hs up exp s lc \<longleftrightarrow>
     directory (pool s) lc \<noteq> None \<and>
     new_directory (run (update_presence E hs up) s) =
       (if parse_ip_addr (up_ip up) = None then directory (pool s)
        else spec_update (up_ip up, unat (up_port up), sql_now E s) lc (directory (pool s))) \<and>
     new_directory (run (heartbeat E hs) s) = spec_heartbeat (sql_now E s) lc (directory (pool s)) \<and>
     new_directory (run (token_refresh E rnd hs) s) = spec_refresh (unat (max_per_user (cfg_tokens (config s))))
         (hash_token E (generate_token E rnd), sql_now E s, exp) lc (directory (pool s)) \<and>
     new_directory (run (unregister E hs) s) = spec_unregister lc (directory (pool s))"

lemma refines_bearer:
  assumes "faults s = []" "db_ok (pool s)" "hash_token E (generate_token E rnd) \<notin> t_hash ` set (tokens (pool s))"
    and "expiry_of E (config s) (utc_now s) = Inr exp"
    and "u \<in> set (users (pool s))" "run (resolve_token E hs) s = (Inr (u_id u), s)"
  shows "bearer_refines E rnd hs up exp s (u_lc u)"
  unfolding bearer_refines_def
proof (intro conjI)
  have uid: "u_id u \<in> user_ids (pool s)" using assms(5) by (simp add: user_ids_def)
  show "directory (pool s) (u_lc u) \<noteq> None" using directory_user [OF assms(2,5)] by simp
  show "new_directory (run (update_presence E hs up) s) =
      (if parse_ip_addr (up_ip up) = None then directory (pool s)
       else spec_update (up_ip up, unat (up_port up), sql_now E s) (u_lc u) (directory (pool s)))"
    using directory_update [OF assms(2,5)] by (simp add: run_update [OF assms(1,6) uid])
  show "new_directory (run (heartbeat E hs) s) = spec_heartbeat (sql_now E s) (u_lc u) (directory (pool s))"
    using directory_heartbeat [OF assms(2,5)] by (simp add: run_heartbeat [OF assms(1,6)])
  show "new_directory (run (token_refresh E rnd hs) s) = spec_refresh (unat (max_per_user (cfg_tokens (config s))))
        (hash_token E (generate_token E rnd), sql_now E s, exp) (u_lc u) (directory (pool s))"
    by (simp add: run_token_refresh [OF assms(1,2,6,3,4)] directory_refresh [OF assms(2,5)] split del: if_split)
  show "new_directory (run (unregister E hs) s) = spec_unregister (u_lc u) (directory (pool s))"
    using directory_unregister [OF assms(2,5)] by (simp add: run_unregister [OF assms(1,6)])
qed

lemma bearer_user:
  assumes "faults s = []" "db_ok (pool s)" "fst (run (resolve_token E hs) s) = Inr uid"
  obtains u where "u \<in> set (users (pool s))" "u_id u = uid" "run (resolve_token E hs) s = (Inr uid, s)"
proof -
  have run: "run (resolve_token E hs) s = (Inr uid, snd (run (resolve_token E hs) s))" using assms(3) by (metis prod.collapse)
  from resolve_tokenD [OF assms(1) this] have "snd (run (resolve_token E hs) s) = s" "uid \<in> user_ids (pool s)"
    using assms(2) by (auto simp: db_ok_def tokens_ok_def)
  then show thesis using run that by (auto simp: user_ids_def)
qed


text \<open>The answers, too, depend on the map only.\<close>

lemma directory_tokens:
  assumes "db_ok d" "t \<in> set (tokens d)"
  obtains u where "u \<in> set (users d)" "u_id u = t_user t" "token_entry t \<in> set (ac_tokens (account_of d u))"
proof -
  have "t_user t \<in> user_ids d" using assms by (auto simp: db_ok_def tokens_ok_def)
  then obtain u where "u \<in> set (users d)" "u_id u = t_user t" by (auto simp: user_ids_def)
  with assms(2) show thesis by (intro that [of u]) (auto simp: account_of_def tokens_of_def)
qed

lemma reads_token:
  assumes "faults s = []" "db_ok (pool s)"
  shows "fst (run (resolve_token E hs) s) = Inr uid \<longleftrightarrow>
    (\<exists>raw u c e. extract_bearer hs = Inr raw \<and> u \<in> set (users (pool s)) \<and> u_id u = uid \<and>
       (\<exists>a. directory (pool s) (u_lc u) = Some a \<and> (hash_token E raw, c, e) \<in> set (ac_tokens a)) \<and>
       (case e of None \<Rightarrow> True | Some e \<Rightarrow> sql_now E s < e))" (is "?l \<longleftrightarrow> ?r")
proof
  assume ?l
  then have run: "run (resolve_token E hs) s = (Inr uid, snd (run (resolve_token E hs) s))" by (metis prod.collapse)
  obtain t raw where t: "t \<in> set (tokens (pool s))" "t_user t = uid" "extract_bearer hs = Inr raw"
    "t_hash t = hash_token E raw" "token_live (sql_now E s) t"
    using resolve_tokenD [OF assms(1) run] by blast
  obtain u where "u \<in> set (users (pool s))" "u_id u = t_user t" "token_entry t \<in> set (ac_tokens (account_of (pool s) u))"
    using directory_tokens [OF assms(2) t(1)] by blast
  then show ?r using t directory_user [OF assms(2)]
    by (intro exI [of _ raw] exI [of _ u] exI [of _ "t_created t"] exI [of _ "t_expires t"]) (auto simp: token_entry_def token_live_def)
next
  assume ?r
  then obtain raw u c e where u: "extract_bearer hs = Inr raw" "u \<in> set (users (pool s))" "u_id u = uid"
    "(hash_token E raw, c, e) \<in> set (ac_tokens (account_of (pool s) u))" "case e of None \<Rightarrow> True | Some e \<Rightarrow> sql_now E s < e"
    using directory_user [OF assms(2)] by auto
  then obtain t where "t \<in> set (tokens (pool s))" "t_user t = uid" "t_hash t = hash_token E raw" "t_expires t = e"
    by (auto simp: account_of_def tokens_of_def token_entry_def)
  then show ?l using run_resolve_row [OF assms, of t hs raw E] u(1,5) by (simp add: token_live_def)
qed

lemma reads_lookup:
  assumes "faults s = []" "db_ok (pool s)" "fst (allow_lookup peer (mono_now s) (limiter s))"
  shows "case Option.bind (directory (pool s) (to_lowercase E name)) (\<lambda>a. map_option (Pair a) (ac_addr a)) of
      None \<Rightarrow> fst (run (lookup E peer name) s) = Inl (Fail (NotFound ''not_found''))
    | Some (a, ip, port, seen) \<Rightarrow> \<exists>online. fst (run (lookup E peer name) s) = Inr (json_response 200
        [(''username'', JStr (ac_name a)), (''pubkey'', JStr (ac_pubkey a)), (''ip'', JStr ip),
         (''port'', JInt (int port)), (''online'', JBool online), (''last_seen'', JStr seen)])"
proof -
  obtain l where l: "allow_lookup peer (mono_now s) (limiter s) = (True, l)" using assms(3) by (metis prod.collapse)
  have none: "fst (run (lookup E peer name) s) = Inl (Fail (NotFound ''not_found''))"
    if "fst (select_lookup (to_lowercase E name) (pool s)) = Inr None"
  proof -
    have "run (sql (\<lambda>s. select_lookup (to_lowercase E name))) (s\<lparr>limiter := l\<rparr>) = (Inr None, s\<lparr>limiter := l\<rparr>)"
      using that assms(1) by (simp add: run_sql_ok select_lookup_def query_def)
    then show ?thesis by (simp add: lookup_def run_simps run_limit_lookup l run_require)
  qed
  show ?thesis
  proof (cases "List.find (\<lambda>u. u_lc u = to_lowercase E name) (users (pool s))")
    case None
    then show ?thesis using none by (simp add: directory_def select_lookup_def query_def)
  next
    case u: (Some u)
    show ?thesis
    proof (cases "List.find (\<lambda>p. p_user p = u_id u) (presence (pool s))")
      case None
      then show ?thesis using none u by (simp add: directory_def select_lookup_def account_of_def query_def)
    next
      case (Some p)
      obtain q where q: "List.find (\<lambda>r. p_ip r = p_ip p) (presence (pool s)) = Some q"
        using find_SomeD [OF Some] find_NoneD by fastforce
      show ?thesis
        using run_lookup [OF assms(1,2) l _ _ _ _ q, of u E name] find_SomeD [OF u] find_SomeD [OF Some] u Some
        by (auto simp: directory_def account_of_def addr_entry_def lookup_json_def)
    qed
  qed
qed

text \<open>C18. The answers read the directory: a bearer authenticates an account exactly when one of the
  account's tokens has its hash and is not past its expiry, and an admitted lookup answers 404 unless
  the account is there with an address, and with the account's name, key and address if it is.\<close>

theorem directory_reads:
  assumes "faults s = []" "db_ok (pool s)" "fst (allow_lookup peer (mono_now s) (limiter s))"
  shows "(fst (run (resolve_token E hs) s) = Inr uid \<longleftrightarrow>
      (\<exists>raw u c e. extract_bearer hs = Inr raw \<and> u \<in> set (users (pool s)) \<and> u_id u = uid \<and>
         (\<exists>a. directory (pool s) (u_lc u) = Some a \<and> (hash_token E raw, c, e) \<in> set (ac_tokens a)) \<and>
         (case e of None \<Rightarrow> True | Some e \<Rightarrow> sql_now E s < e))) \<and>
    (case Option.bind (directory (pool s) (to_lowercase E name)) (\<lambda>a. map_option (Pair a) (ac_addr a)) of
        None \<Rightarrow> fst (run (lookup E peer name) s) = Inl (Fail (NotFound ''not_found''))
      | Some (a, ip, port, seen) \<Rightarrow> \<exists>online. fst (run (lookup E peer name) s) = Inr (json_response 200
          [(''username'', JStr (ac_name a)), (''pubkey'', JStr (ac_pubkey a)), (''ip'', JStr ip),
           (''port'', JInt (int port)), (''online'', JBool online), (''last_seen'', JStr seen)]))"
  using reads_token [OF assms(1,2)] reads_lookup [OF assms] by (rule conjI)

section \<open>Witnesses\<close>


theorem directory_reads_witness:
  "\<exists>online. fst (run (lookup sample_ext (V4 0) ''vasya'') sample_home) = Inr (json_response 200
     [(''username'', JStr ''vasya''), (''pubkey'', JStr sample_key), (''ip'', JStr (show_v4 1 2 3 4)),
      (''port'', JInt 47821), (''online'', JBool online), (''last_seen'', JStr (sql_datetime sample_ext 0))])"
proof -
  have "directory sample_db ''vasya'' = Some (account_of sample_db (sample_user 1 ''vasya''))"
    using directory_user [OF sample_db_ok, of "sample_user 1 ''vasya''"] by (simp add: sample_db_simps) (simp add: sample_user_def)
  then show ?thesis
    using directory_reads [of sample_home "V4 0" sample_ext "bearer sample_token" 1 "''vasya''"]
    by (simp add: sample_db_ok sample_lookup_limiter sample_lc sample_lower account_of_def addr_entry_def sample_db_simps
        sample_user_def sample_presence_def)
qed

end
