(* ===== verification/Relay.thy ===== *)
theory Relay
  imports Accounts
begin

text \<open>
  Relay sessions over HTTP (\<open>src/relay.rs\<close>): create, join, the upgrade to WebSocket and the
  clean-up task. A session is in \<open>relay_init\<close> until its creator connects, then in \<open>relay_pending\<close>
  until its joiner does; \<open>relay_ok\<close> says it is in at most one of the two and has its audit row.
  What the two WebSocket tasks do once spawned is the theory \<open>Relay_Ws\<close>.
\<close>

section \<open>HTTP\<close>

definition session_count :: "app_state \<Rightarrow> nat" where
  "session_count s = length (relay_init s) + length (relay_pending s)"

definition check_sessions :: "config \<Rightarrow> response option handler" where
  "check_sessions c =
     (if 0 < max_sessions (cfg_relay c)
      then pbind (reads session_count) (\<lambda>cnt.
           pure (if unat (max_sessions (cfg_relay c)) \<le> cnt
                 then Some (json_response 503 [(''error'', JStr ''max_sessions_reached'')]) else None))
      else pure None)"

definition init_session :: "string \<Rightarrow> initialized_relay \<Rightarrow> unit handler" where
  "init_session sid r = atomic (\<lambda>s.
     (Inr (), s\<lparr>relay_init := AList.update sid (r\<lparr>ir_created_at := mono_now s\<rparr>) (relay_init s)\<rparr>))"

text \<open>The part of \<open>relay_create\<close> after its checks.\<close>

definition open_session :: "'v ext \<Rightarrow> bytes \<Rightarrow> bytes \<Rightarrow> bytes \<Rightarrow> nat \<Rightarrow> response handler" where
  "open_session E uuid rnd_a rnd_b creator =
     (let sid = uuid_text E uuid; token_a = generate_token E rnd_a; token_b = generate_token E rnd_b in
      pbind (sql (\<lambda>s. insert_session sid creator (sql_now E s))) (\<lambda>_.
      pbind (init_session sid
        \<lparr>ir_token_a_hash = hash_token E token_a, ir_token_b = token_b, ir_token_b_hash = hash_token E token_b,
         ir_creator_id = creator, ir_created_at = 0\<rparr>) (\<lambda>_.
      pure (json_response 200 [(''session_id'', JStr sid), (''token_a'', JStr token_a)]))))"

definition relay_create :: "'v ext \<Rightarrow> bytes \<Rightarrow> bytes \<Rightarrow> bytes \<Rightarrow> headers \<Rightarrow> response handler" where
  "relay_create E uuid rnd_a rnd_b hs =
     pbind (reads config) (\<lambda>c.
     pbind (require (relay_enabled (cfg_relay c)) (Forbidden ''relay_disabled'')) (\<lambda>_.
     pbind (resolve_token E hs) (\<lambda>creator.
     pbind (check_sessions c) (\<lambda>full. unless_response full (
     open_session E uuid rnd_a rnd_b creator)))))"

definition relay_join :: "'v ext \<Rightarrow> headers \<Rightarrow> string \<Rightarrow> response handler" where
  "relay_join E hs sid =
     pbind (reads config) (\<lambda>c.
     pbind (require (relay_enabled (cfg_relay c)) (Forbidden ''relay_disabled'')) (\<lambda>_.
     pbind (resolve_token E hs) (\<lambda>joiner.
     pbind (reads (\<lambda>s. map_of (relay_init s) sid)) (\<lambda>found.
     case found of
       None \<Rightarrow> fail_with (NotFound ''session_not_found'')
     | Some r \<Rightarrow>
         pbind (sql (\<lambda>s. set_joiner joiner sid)) (\<lambda>_.
         pure (json_response 200 [(''token_b'', JStr (ir_token_b r))]))))))"

section \<open>The WebSocket endpoint\<close>

definition new_arc :: "string \<Rightarrow> pending_relay handler" where
  "new_arc hash = atomic (\<lambda>s.
     (Inr \<lparr>pr_token_b_hash = hash, pr_arc = next_arc s, pr_created_at = mono_now s\<rparr>,
      s\<lparr>arcs := (arcs s)(next_arc s := new_channels), next_arc := Suc (next_arc s)\<rparr>))"

definition drop_init :: "string \<Rightarrow> unit handler" where
  "drop_init sid = atomic (\<lambda>s. (Inr (), s\<lparr>relay_init := AList.delete sid (relay_init s)\<rparr>))"

definition put_pending :: "string \<Rightarrow> pending_relay \<Rightarrow> unit handler" where
  "put_pending sid p = atomic (\<lambda>s. (Inr (), s\<lparr>relay_pending := AList.update sid p (relay_pending s)\<rparr>))"

definition take_pending :: "string \<Rightarrow> string \<Rightarrow> app_state \<Rightarrow> pending_relay option \<times> app_state" where
  "take_pending hash sid s =
     (case map_of (relay_pending s) sid of
        None \<Rightarrow> (None, s)
      | Some p \<Rightarrow>
          if pr_token_b_hash p = hash
          then (Some p, s\<lparr>relay_pending := AList.delete sid (relay_pending s)\<rparr>) else (None, s))"

definition on_upgrade :: "ws_task \<Rightarrow> response handler" where
  "on_upgrade t = atomic (\<lambda>s. (Inr switching_protocols, s\<lparr>spawned := spawned s @ [t]\<rparr>))"

definition relay_ws :: "'v ext \<Rightarrow> string \<Rightarrow> string option \<Rightarrow> response handler" where
  "relay_ws E sid token =
     (case token of
        None \<Rightarrow> pure (text_response 400 ''missing token'')
      | Some tok \<Rightarrow>
          let hash = hash_token E tok in
          pbind (reads (\<lambda>s. map_of (relay_init s) sid)) (\<lambda>maybe_init.
          case maybe_init of
            Some init \<Rightarrow>
              if hash \<noteq> ir_token_a_hash init then pure (text_response 401 ''invalid token'')
              else
                pbind (new_arc (ir_token_b_hash init)) (\<lambda>p.
                pbind (drop_init sid) (\<lambda>_.
                pbind (put_pending sid p) (\<lambda>_.
                pbind (reads config) (\<lambda>c.
                on_upgrade (CreatorWs (pr_arc p) sid (session_timeout_seconds (cfg_relay c)))))))
          | None \<Rightarrow>
              pbind (atomic (\<lambda>s. map_prod Inr id (take_pending hash sid s))) (\<lambda>maybe_pending.
              case maybe_pending of
                Some p \<Rightarrow> on_upgrade (JoinerWs (pr_arc p))
              | None \<Rightarrow> pure (text_response 404 ''session not found''))))"

section \<open>The cleanup task\<close>

text \<open>\<open>Duration + Duration\<close> panics when the seconds exceed 64 bits.\<close>

definition grace_of :: "config \<Rightarrow> nat option" where
  "grace_of c =
     (let t = unat (session_timeout_seconds (cfg_relay c))
      in if t + 30 < 2 ^ 64 then Some (secs (t + 30)) else None)"

definition retain_init :: "nat \<Rightarrow> nat \<Rightarrow> unit handler" where
  "retain_init now grace = atomic (\<lambda>s.
     (Inr (), s\<lparr>relay_init := filter (\<lambda>kv. now - ir_created_at (snd kv) < grace) (relay_init s)\<rparr>))"

definition retain_pending :: "nat \<Rightarrow> nat \<Rightarrow> unit handler" where
  "retain_pending now grace = atomic (\<lambda>s.
     (Inr (), s\<lparr>relay_pending := filter (\<lambda>kv. now - pr_created_at (snd kv) < grace) (relay_pending s)\<rparr>))"

definition cleanup_pass :: "unit handler" where
  "cleanup_pass =
     pbind (reads config) (\<lambda>c.
     case grace_of c of
       None \<Rightarrow> throw Panic
     | Some grace \<Rightarrow>
         pbind (reads mono_now) (\<lambda>now.
         pbind (retain_init now grace) (\<lambda>_.
         retain_pending now grace)))"

section \<open>Running the handlers\<close>

lemmas relay_sections = init_session_def new_arc_def drop_init_def put_pending_def on_upgrade_def
  retain_init_def retain_pending_def

lemma run_relay_sections [run_simps]:
  "run (init_session sid r) s =
     (Inr (), s\<lparr>relay_init := AList.update sid (r\<lparr>ir_created_at := mono_now s\<rparr>) (relay_init s)\<rparr>)"
  "run (new_arc h) s =
     (Inr \<lparr>pr_token_b_hash = h, pr_arc = next_arc s, pr_created_at = mono_now s\<rparr>,
      s\<lparr>arcs := (arcs s)(next_arc s := new_channels), next_arc := Suc (next_arc s)\<rparr>)"
  "run (drop_init sid) s = (Inr (), s\<lparr>relay_init := AList.delete sid (relay_init s)\<rparr>)"
  "run (put_pending sid p) s = (Inr (), s\<lparr>relay_pending := AList.update sid p (relay_pending s)\<rparr>)"
  "run (on_upgrade t) s = (Inr switching_protocols, s\<lparr>spawned := spawned s @ [t]\<rparr>)"
  by (simp_all add: relay_sections run_atomic)

text \<open>The state after the creator's upgrade.\<close>

definition creator_connected :: "string \<Rightarrow> initialized_relay \<Rightarrow> app_state \<Rightarrow> app_state" where
  "creator_connected sid r s =
     s\<lparr>relay_init := AList.delete sid (relay_init s),
       relay_pending := AList.update sid
         \<lparr>pr_token_b_hash = ir_token_b_hash r, pr_arc = next_arc s, pr_created_at = mono_now s\<rparr> (relay_pending s),
       arcs := (arcs s)(next_arc s := new_channels), next_arc := Suc (next_arc s),
       spawned := spawned s @ [CreatorWs (next_arc s) sid (session_timeout_seconds (cfg_relay (config s)))]\<rparr>"

lemma run_relay_ws:
  "run (relay_ws E sid token) s =
     (case token of
        None \<Rightarrow> (Inr (text_response 400 ''missing token''), s)
      | Some tok \<Rightarrow>
          (case map_of (relay_init s) sid of
             Some r \<Rightarrow>
               if hash_token E tok \<noteq> ir_token_a_hash r then (Inr (text_response 401 ''invalid token''), s)
               else (Inr switching_protocols, creator_connected sid r s)
           | None \<Rightarrow>
               (case map_of (relay_pending s) sid of
                  None \<Rightarrow> (Inr (text_response 404 ''session not found''), s)
                | Some p \<Rightarrow>
                    if pr_token_b_hash p = hash_token E tok
                    then (Inr switching_protocols, s\<lparr>relay_pending := AList.delete sid (relay_pending s),
                            spawned := spawned s @ [JoinerWs (pr_arc p)]\<rparr>)
                    else (Inr (text_response 404 ''session not found''), s))))"
proof (cases token)
  case None
  then show ?thesis by (simp add: relay_ws_def run_pure)
next
  case (Some tok)
  show ?thesis
  proof (cases "map_of (relay_init s) sid")
    case None
    then show ?thesis using Some
      by (simp add: relay_ws_def Let_def run_pbind run_reads run_atomic take_pending_def run_pure run_relay_sections
          split: option.split)
  next
    case r: (Some r)
    then show ?thesis using Some
      by (simp add: relay_ws_def Let_def run_pbind run_reads run_pure run_relay_sections creator_connected_def)
  qed
qed

text \<open>The ids of the audit table: a row is never deleted.\<close>

abbreviation session_ids :: "app_state \<Rightarrow> string set" where
  "session_ids s \<equiv> s_id ` set (sessions (pool s))"

definition relay_ok :: "app_state \<Rightarrow> bool" where
  "relay_ok s \<longleftrightarrow> keys_ok (relay_init s) \<and> keys_ok (relay_pending s) \<and>
     hms.disjoint (relay_init s) (relay_pending s) \<and>
     list_all (\<lambda>x. fst x \<in> session_ids s) (relay_init s) \<and>
     list_all (\<lambda>x. fst x \<in> session_ids s) (relay_pending s) \<and>
     list_all (\<lambda>x. pr_arc (snd x) < next_arc s) (relay_pending s)"

lemma list_all_update: "list_all P m \<Longrightarrow> P (k, v) \<Longrightarrow> list_all P (AList.update k v m)"
  by (induction m) auto

lemma list_all_delete: "list_all P m \<Longrightarrow> list_all P (AList.delete k m)"
  by (simp add: AList.delete_eq list_all_iff)

lemma list_all_filter: "list_all P m \<Longrightarrow> list_all P (filter Q m)"
  by (simp add: list_all_iff)

lemma list_all_get: "list_all P m \<Longrightarrow> map_of m k = Some v \<Longrightarrow> P (k, v)"
  by (auto simp: list_all_iff dest: map_of_SomeD)

lemmas hmap_all = list_all_update list_all_delete list_all_filter

lemma relay_okD:
  assumes "relay_ok s"
  shows "keys_ok (relay_init s)" "keys_ok (relay_pending s)" "hms.disjoint (relay_init s) (relay_pending s)"
    "map_of (relay_init s) k = Some r \<Longrightarrow> map_of (relay_pending s) k = None"
    "map_of (relay_init s) k = Some r \<Longrightarrow> k \<in> s_id ` set (sessions (pool s))"
    "map_of (relay_pending s) k = Some p \<Longrightarrow> k \<in> s_id ` set (sessions (pool s))"
    "map_of (relay_pending s) k = Some p \<Longrightarrow> pr_arc p < next_arc s"
proof -
  note ok = assms [unfolded relay_ok_def]
  show "keys_ok (relay_init s)" "keys_ok (relay_pending s)" "hms.disjoint (relay_init s) (relay_pending s)"
    using ok by simp_all
  show "map_of (relay_pending s) k = None" if "map_of (relay_init s) k = Some r"
    using ok that unfolding hms.disjoint_def by (metis option.distinct(1))
  show "k \<in> session_ids s" if "map_of (relay_init s) k = Some r"
    using ok list_all_get [OF _ that] by force
  show "k \<in> session_ids s" "pr_arc p < next_arc s" if "map_of (relay_pending s) k = Some p"
    using ok list_all_get [OF _ that] by force+
qed

text \<open>Statements that keep the ids of the audit table keep the invariant.\<close>

lemma relay_ok_frame:
  "relay_ok s \<Longrightarrow> s_id ` set (sessions (pool s)) \<subseteq> s_id ` set (sessions d) \<Longrightarrow>
     relay_ok (s\<lparr>pool := d, faults := fs\<rparr>)"
  unfolding relay_ok_def by (auto elim!: list.pred_mono_strong)

lemma relay_ok_creator:
  assumes "relay_ok s" "map_of (relay_init s) sid = Some r"
  shows "relay_ok (creator_connected sid r s)"
proof -
  have "list_all (\<lambda>x. pr_arc (snd x) < Suc (next_arc s)) (relay_pending s)"
    using assms(1) by (auto simp: relay_ok_def list_all_iff intro: less_SucI)
  then show ?thesis
    using assms(1) relay_okD(5) [OF assms]
    by (simp add: relay_ok_def creator_connected_def hm.ok_put hm.ok_del hms.handover_disjoint hmap_all)
qed

lemma relay_ok_joiner:
  assumes "relay_ok s"
  shows "relay_ok (s\<lparr>relay_pending := AList.delete sid (relay_pending s), spawned := ts\<rparr>)"
  using assms unfolding relay_ok_def by (simp add: hm.ok_del hms.del2_disjoint hmap_all)

lemma relay_ok_ws: "relay_ok s \<Longrightarrow> relay_ok (snd (run (relay_ws E sid token) s))"
  by (auto simp: run_relay_ws relay_ok_creator relay_ok_joiner split: option.split)

lemma relay_ok_faults: "relay_ok s \<Longrightarrow> relay_ok (s\<lparr>faults := fs\<rparr>)"
  by (simp add: relay_ok_def)

lemma relay_ok_auth [safe_rules]: "safe relay_ok (resolve_token E hs)"
  unfolding resolve_token_def select_token_def query_def
  by (intro safe_rules safe_sql) (auto simp: relay_ok_faults intro: relay_ok_frame)

lemma set_joiner_ids: "s_id ` set (sessions (snd (set_joiner uid sid d))) = s_id ` set (sessions d)"
proof -
  have "s_id ` set (map (\<lambda>s. if s_id s = sid then s\<lparr>s_joiner := Some uid\<rparr> else s) ss) = s_id ` set ss"
    for ss :: "session_row list"
    by (induction ss) auto
  then show ?thesis by (simp add: set_joiner_def del: set_map)
qed

lemma relay_ok_join: "safe relay_ok (relay_join E hs sid)"
  unfolding relay_join_def
  by (intro safe_rules safe_sql relay_ok_frame relay_ok_faults) (simp_all add: set_joiner_ids)

lemma relay_ok_filter:
  assumes "relay_ok s"
  shows "relay_ok (s\<lparr>relay_init := filter P (relay_init s)\<rparr>)"
    and "relay_ok (s\<lparr>relay_pending := filter Q (relay_pending s)\<rparr>)"
proof -
  have "hms.disjoint (filter P m) n" "hms.disjoint m (filter Q n)" if "hms.disjoint m n"
    for m :: "(string, initialized_relay) hmap" and n :: "(string, pending_relay) hmap"
    using that map_of_filter_None unfolding hms.disjoint_def by metis+
  then show "relay_ok (s\<lparr>relay_init := filter P (relay_init s)\<rparr>)"
    and "relay_ok (s\<lparr>relay_pending := filter Q (relay_pending s)\<rparr>)"
    using assms by (simp_all add: relay_ok_def keys_ok_filter hmap_all)
qed

lemma relay_ok_cleanup: "safe relay_ok cleanup_pass"
  unfolding cleanup_pass_def retain_init_def retain_pending_def
  by (intro safe_rules safe_atomic) (simp_all add: relay_ok_filter)


text \<open>Opening a session: the audit row, whose primary key refuses a known id, and then the table.\<close>

definition opened :: "'v ext \<Rightarrow> bytes \<Rightarrow> bytes \<Rightarrow> bytes \<Rightarrow> nat \<Rightarrow> app_state \<Rightarrow> app_state" where
  "opened E uuid rnd_a rnd_b creator s =
     s\<lparr>pool := (pool s)\<lparr>sessions := sessions (pool s) @ [\<lparr>s_id = uuid_text E uuid, s_creator = Some creator,
           s_joiner = None, s_created = sql_now E s, s_bytes = 0\<rparr>]\<rparr>,
       relay_init := AList.update (uuid_text E uuid)
         \<lparr>ir_token_a_hash = hash_token E (generate_token E rnd_a), ir_token_b = generate_token E rnd_b,
          ir_token_b_hash = hash_token E (generate_token E rnd_b), ir_creator_id = creator,
          ir_created_at = mono_now s\<rparr> (relay_init s), faults := tl (faults s)\<rparr>"

lemma run_open_session:
  "run (open_session E uuid rnd_a rnd_b creator) s =
     (if faults s \<noteq> [] \<and> hd (faults s) then (Inl (Fail (Db Engine)), s\<lparr>faults := tl (faults s)\<rparr>)
      else if uuid_text E uuid \<in> session_ids s
      then (Inl (Fail (Db (Constraint ''relay_sessions.id''))), s\<lparr>faults := tl (faults s)\<rparr>)
      else if creator \<notin> user_ids (pool s)
      then (Inl (Fail (Db (Constraint ''FOREIGN KEY''))), s\<lparr>faults := tl (faults s)\<rparr>)
      else (Inr (json_response 200 [(''session_id'', JStr (uuid_text E uuid)), (''token_a'', JStr (generate_token E rnd_a))]),
        opened E uuid rnd_a rnd_b creator s))"
  by (simp add: open_session_def Let_def run_pbind sql_def run_atomic insert_session_def run_relay_sections run_pure
      opened_def)

lemma list_all_more: "list_all (\<lambda>x. fst x \<in> S) m \<Longrightarrow> list_all (\<lambda>x. fst x = a \<or> fst x \<in> S) m"
  by (simp add: list_all_iff)

lemma relay_ok_fresh:
  assumes "relay_ok s" "k \<notin> session_ids s"
  shows "map_of (relay_init s) k = None" "map_of (relay_pending s) k = None"
  using relay_okD(5,6) [OF assms(1)] assms(2) by (metis not_Some_eq)+

lemma relay_ok_opened:
  assumes "relay_ok s" "uuid_text E uuid \<notin> session_ids s"
  shows "relay_ok (opened E uuid rnd_a rnd_b creator s)"
  using assms relay_ok_fresh [OF assms]
  by (simp add: relay_ok_def opened_def hm.ok_put hms.put1_disjoint hmap_all list_all_more)

lemma relay_ok_open: "keeps relay_ok (open_session E uuid rnd_a rnd_b creator)"
  by (rule keepsI) (simp add: run_open_session relay_ok_opened relay_ok_faults)

lemma relay_ok_create: "keeps relay_ok (relay_create E uuid rnd_a rnd_b hs)"
  unfolding relay_create_def check_sessions_def unless_response_def require_def ensure_def
  by (intro keeps_rules keeps_safe [OF relay_ok_auth] relay_ok_open)

text \<open>The number of sessions.\<close>

lemma count_creator:
  assumes "relay_ok s" "map_of (relay_init s) sid = Some r"
  shows "session_count (creator_connected sid r s) = session_count s"
proof -
  have "relay_init s \<noteq> []" using assms(2) by auto
  then show ?thesis using relay_okD(1-3) [OF assms(1)] assms(2)
    by (simp add: session_count_def creator_connected_def hms.handover_count)
qed

lemma count_opened:
  assumes "relay_ok s" "uuid_text E uuid \<notin> session_ids s"
  shows "session_count (opened E uuid rnd_a rnd_b creator s) = Suc (session_count s)"
  using relay_okD(1) [OF assms(1)] relay_ok_fresh [OF assms]
  by (simp add: session_count_def opened_def hm.len_put)

lemma count_create:
  assumes "relay_ok s" "0 < max_sessions (cfg_relay (config s))"
    and "session_count s \<le> unat (max_sessions (cfg_relay (config s)))"
  shows "session_count (snd (run (relay_create E uuid rnd_a rnd_b hs) s)) \<le> unat (max_sessions (cfg_relay (config s)))"
proof -
  let ?s = "snd (run (resolve_token E hs) s)"
  obtain fs where s': "?s = s\<lparr>faults := fs\<rparr>" using resolve_token_read_only by metis
  have "relay_ok ?s" using assms(1) s' by (simp add: relay_ok_faults)
  then show ?thesis
    using assms(2,3) s' count_opened [of ?s E uuid rnd_a rnd_b]
    by (auto simp: relay_create_def check_sessions_def run_pbind run_reads run_require run_unless_response run_pure
        run_open_session session_count_def split: prod.splits sum.splits)
qed

lemma run_create_ok:
  assumes "faults s = []" "relay_enabled (cfg_relay (config s))"
    and "max_sessions (cfg_relay (config s)) = 0 \<or> session_count s < unat (max_sessions (cfg_relay (config s)))"
    and "run (resolve_token E hs) s = (Inr uid, s)" "uid \<in> user_ids (pool s)" "uuid_text E uuid \<notin> session_ids s"
  shows "run (relay_create E uuid rnd_a rnd_b hs) s =
    (Inr (json_response 200 [(''session_id'', JStr (uuid_text E uuid)), (''token_a'', JStr (generate_token E rnd_a))]),
     opened E uuid rnd_a rnd_b uid s)"
proof -
  have "run (check_sessions (config s)) s = (Inr None, s)"
    using assms(3) by (auto simp: check_sessions_def run_pbind run_reads run_pure)
  then show ?thesis using assms
    by (simp add: relay_create_def run_pbind run_reads run_require run_unless_response run_open_session)
qed

lemma resolve_frame:
  assumes "faults s = []" "faults t = []" "tokens (pool t) = tokens (pool s)" "utc_now t = utc_now s"
    and "run (resolve_token E hs) s = (Inr uid, s)"
  shows "run (resolve_token E hs) t = (Inr uid, t)"
  using assms by (auto simp: run_resolve_token sql_now_def split: sum.splits option.splits)

definition joined :: "nat \<Rightarrow> string \<Rightarrow> app_state \<Rightarrow> app_state" where
  "joined uid sid s = s\<lparr>pool := snd (set_joiner uid sid (pool s))\<rparr>"

lemma run_join_ok:
  assumes "faults s = []" "relay_enabled (cfg_relay (config s))" "run (resolve_token E hs) s = (Inr uid, s)"
    and "map_of (relay_init s) sid = Some r" "uid \<in> user_ids (pool s)"
  shows "run (relay_join E hs sid) s = (Inr (json_response 200 [(''token_b'', JStr (ir_token_b r))]), joined uid sid s)"
  using assms
  by (simp add: relay_join_def run_pbind run_reads run_require run_sql_ok run_pure set_joiner_def joined_def)

lemma session_row:
  "\<exists>row \<in> set (sessions (pool (joined joiner (uuid_text E uuid) (opened E uuid rnd_a rnd_b creator s)))).
     s_id row = uuid_text E uuid \<and> s_creator row = Some creator \<and>
     (joiner \<in> user_ids (pool s) \<longrightarrow> s_joiner row = Some joiner)"
  by (simp add: joined_def opened_def set_joiner_def user_ids_def)

text \<open>C12. The life of a session: \<open>create\<close>, \<open>join\<close>, the creator's upgrade with the token \<open>create\<close>
  returned and the joiner's with the token \<open>join\<close> returned end with two tasks on the same fresh
  channels, the audit row names both users, and nobody can connect to the session again.\<close>

theorem relay_handshake:
  assumes "faults s = []" "db_ok (pool s)" "relay_ok s" "relay_enabled (cfg_relay (config s))"
    and "max_sessions (cfg_relay (config s)) = 0 \<or> session_count s < unat (max_sessions (cfg_relay (config s)))"
    and "run (resolve_token E hs) s = (Inr creator, s)" "run (resolve_token E hs') s = (Inr joiner, s)"
    and "uuid_text E uuid \<notin> session_ids s"
  shows "let sid = uuid_text E uuid;
       create = run (relay_create E uuid rnd_a rnd_b hs) s;
       join = run (relay_join E hs' sid) (snd create);
       upgrade_a = run (relay_ws E sid (Some (generate_token E rnd_a))) (snd join);
       upgrade_b = run (relay_ws E sid (Some (generate_token E rnd_b))) (snd upgrade_a);
       final = snd upgrade_b
     in fst create = Inr (json_response 200 [(''session_id'', JStr sid), (''token_a'', JStr (generate_token E rnd_a))]) \<and>
        fst join = Inr (json_response 200 [(''token_b'', JStr (generate_token E rnd_b))]) \<and>
        fst upgrade_a = Inr switching_protocols \<and> fst upgrade_b = Inr switching_protocols \<and>
        spawned final = spawned s @ [CreatorWs (next_arc s) sid (session_timeout_seconds (cfg_relay (config s))),
           JoinerWs (next_arc s)] \<and>
        arcs final (next_arc s) = new_channels \<and>
        (\<exists>row \<in> set (sessions (pool final)). s_id row = sid \<and> s_creator row = Some creator \<and> s_joiner row = Some joiner) \<and>
        (\<forall>tok. fst (run (relay_ws E sid (Some tok)) final) = Inr (text_response 404 ''session not found''))"
proof -
  let ?sid = "uuid_text E uuid"
  have ids: "creator \<in> user_ids (pool s)" "joiner \<in> user_ids (pool s)"
    using resolve_tokenD [OF assms(1,6)] resolve_tokenD [OF assms(1,7)] assms(2) by (auto simp: db_ok_def tokens_ok_def)
  let ?s1 = "opened E uuid rnd_a rnd_b creator s"
  let ?r = "\<lparr>ir_token_a_hash = hash_token E (generate_token E rnd_a),
      ir_token_b = generate_token E rnd_b, ir_token_b_hash = hash_token E (generate_token E rnd_b),
      ir_creator_id = creator, ir_created_at = mono_now s\<rparr>"
  have f1: "faults ?s1 = []" "config ?s1 = config s" "tokens (pool ?s1) = tokens (pool s)" "utc_now ?s1 = utc_now s"
    and ids1: "joiner \<in> user_ids (pool ?s1)"
    and init: "map_of (relay_init ?s1) ?sid = Some ?r"
    using assms(1) ids by (simp_all add: opened_def map_of_update)
  have create: "run (relay_create E uuid rnd_a rnd_b hs) s =
      (Inr (json_response 200 [(''session_id'', JStr ?sid), (''token_a'', JStr (generate_token E rnd_a))]), ?s1)"
    by (rule run_create_ok [OF assms(1,4,5,6) ids(1) assms(8)])
  let ?s2 = "joined joiner ?sid ?s1"
  have join: "run (relay_join E hs' ?sid) ?s1 = (Inr (json_response 200 [(''token_b'', JStr (generate_token E rnd_b))]), ?s2)"
    using run_join_ok [OF f1(1) _ resolve_frame [OF assms(1) f1(1,3,4) assms(7)] init ids1] assms(4) f1(2) by simp
  let ?s3 = "creator_connected ?sid ?r ?s2"
  have a: "run (relay_ws E ?sid (Some (generate_token E rnd_a))) ?s2 = (Inr switching_protocols, ?s3)"
    using init by (simp add: run_relay_ws joined_def)
  let ?s4 = "?s3\<lparr>relay_pending := AList.delete ?sid (relay_pending ?s3), spawned := spawned ?s3 @ [JoinerWs (next_arc s)]\<rparr>"
  have gone: "map_of (relay_init ?s3) ?sid = None" by (simp add: creator_connected_def map_of_delete)
  have "map_of (relay_pending ?s3) ?sid = Some \<lparr>pr_token_b_hash = hash_token E (generate_token E rnd_b),
      pr_arc = next_arc s, pr_created_at = mono_now s\<rparr>"
    by (simp add: creator_connected_def map_of_update joined_def opened_def)
  then have b: "run (relay_ws E ?sid (Some (generate_token E rnd_b))) ?s3 = (Inr switching_protocols, ?s4)"
    using gone by (simp add: run_relay_ws)
  have "run (relay_ws E ?sid (Some tok)) ?s4 = (Inr (text_response 404 ''session not found''), ?s4)" for tok
    using gone by (simp add: run_relay_ws map_of_delete)
  then show ?thesis
    unfolding Let_def create join a b fst_conv snd_conv
    using session_row [of joiner E uuid rnd_a rnd_b creator s] ids(2)
    by (simp add: creator_connected_def) (simp add: joined_def opened_def)
qed

text \<open>Once the creator has connected the session can no longer be joined: \<open>join\<close> looks only at
  the sessions without a WebSocket and answers 404, although the session waits in the other table.\<close>

theorem relay_join_after_creator:
  assumes "faults s = []" "relay_enabled (cfg_relay (config s))" "run (resolve_token E hs) s = (Inr uid, s)"
    and "map_of (relay_init s) sid = Some r" "hash_token E tok = ir_token_a_hash r"
  shows "let t = snd (run (relay_ws E sid (Some tok)) s) in
     map_of (relay_pending t) sid \<noteq> None \<and> fst (run (relay_join E hs sid) t) = Inl (Fail (NotFound ''session_not_found''))"
proof -
  let ?t = "creator_connected sid r s"
  have t: "snd (run (relay_ws E sid (Some tok)) s) = ?t" using assms(4,5) by (simp add: run_relay_ws)
  have "run (resolve_token E hs) ?t = (Inr uid, ?t)"
    by (rule resolve_frame [OF assms(1) _ _ _ assms(3)]) (simp_all add: creator_connected_def assms(1))
  then show ?thesis using assms(2)
    unfolding Let_def t
    by (simp add: relay_join_def run_pbind run_reads run_require run_fail_with)
      (simp add: creator_connected_def map_of_update map_of_delete run_fail_with)
qed

lemma map_of_filter_val:
  "keys_ok m \<Longrightarrow> map_of (filter (\<lambda>kv. P (snd kv)) m) k =
     (case map_of m k of None \<Rightarrow> None | Some v \<Rightarrow> if P v then Some v else None)"
proof (induction m)
  case (Cons x m)
  then have "map_of m (fst x) = None" by (simp add: keys_ok_def map_of_eq_None_iff)
  with Cons show ?case by (cases x) (auto simp: keys_ok_def split: option.splits)
qed simp

lemma run_cleanup:
  "run cleanup_pass s =
     (case grace_of (config s) of
        None \<Rightarrow> (Inl Panic, s)
      | Some grace \<Rightarrow> (Inr (), s\<lparr>
          relay_init := filter (\<lambda>kv. mono_now s - ir_created_at (snd kv) < grace) (relay_init s),
          relay_pending := filter (\<lambda>kv. mono_now s - pr_created_at (snd kv) < grace) (relay_pending s)\<rparr>))"
  by (simp add: cleanup_pass_def run_pbind run_reads run_throw retain_init_def retain_pending_def run_atomic
      split: option.split)

text \<open>C21. A pass of the clean-up task keeps exactly the sessions younger than the timeout plus 30
  seconds, in both tables; a configured timeout above \<open>2^64 - 31\<close> makes it panic instead.\<close>

theorem cleanup_exact:
  assumes "relay_ok s"
  shows "let t = unat (session_timeout_seconds (cfg_relay (config s))); r = run cleanup_pass s in
     if t < 18446744073709551586
     then fst r = Inr () \<and>
       map_of (relay_init (snd r)) sid = (case map_of (relay_init s) sid of None \<Rightarrow> None
         | Some v \<Rightarrow> if mono_now s - ir_created_at v < secs (t + 30) then Some v else None) \<and>
       map_of (relay_pending (snd r)) sid = (case map_of (relay_pending s) sid of None \<Rightarrow> None
         | Some v \<Rightarrow> if mono_now s - pr_created_at v < secs (t + 30) then Some v else None)
     else r = (Inl Panic, s)"
  using map_of_filter_val [OF relay_okD(1) [OF assms], of "\<lambda>v. mono_now s - ir_created_at v < g" for g]
    map_of_filter_val [OF relay_okD(2) [OF assms], of "\<lambda>v. mono_now s - pr_created_at v < g" for g]
  by (simp add: run_cleanup grace_of_def Let_def)


text \<open>A request of \<open>relay_create\<close> can be stopped between its checks and its writes.\<close>

lemma create_checked:
  assumes "faults s = []" "relay_enabled (cfg_relay (config s))"
    and "session_count s < unat (max_sessions (cfg_relay (config s)))"
    and "run (resolve_token E hs) s = (Inr uid, s)"
    and "i < length ps" "(sched env req)\<^sup>*\<^sup>* (s, ps[i := open_session E u a b uid]) c"
  shows "(sched env req)\<^sup>*\<^sup>* (s, ps[i := relay_create E u a b hs]) c"
proof -
  have "run (check_sessions (config s)) s = (Inr None, s)"
    using assms(3) by (simp add: check_sessions_def run_pbind run_reads run_pure)
  moreover have "run (require (relay_enabled (cfg_relay (config s))) e) s = (Inr (), s)" for e
    by (simp add: run_require assms(2))
  ultimately show ?thesis unfolding relay_create_def
    using assms(4,6)
    by (intro sched_stage [OF assms(5) run_reads] sched_stage [OF assms(5)]) (assumption | simp add: unless_response_def)+
qed

text \<open>C27. \<open>max_sessions\<close> bounds the sessions of requests that do not overlap (\<open>count_create\<close>), but two
  overlapping requests with one slot left both pass the check: there is an execution that ends above
  the bound.\<close>

theorem relay_limit_race:
  assumes "faults s = []" "db_ok (pool s)" "relay_ok s" "relay_enabled (cfg_relay (config s))"
    and "unat (max_sessions (cfg_relay (config s))) = Suc (session_count s)"
    and "run (resolve_token E hs) s = (Inr uid, s)"
    and "uuid_text E u1 \<notin> session_ids s" "uuid_text E u2 \<notin> session_ids s" "uuid_text E u1 \<noteq> uuid_text E u2"
  shows "\<exists>t ps. (sched env req)\<^sup>*\<^sup>* (s, [relay_create E u1 a1 b1 hs, relay_create E u2 a2 b2 hs]) (t, ps) \<and>
     session_count t = Suc (unat (max_sessions (cfg_relay (config t))))"
proof -
  have id: "uid \<in> user_ids (pool s)"
    using resolve_tokenD [OF assms(1,6)] assms(2) by (auto simp: db_ok_def tokens_ok_def)
  let ?o1 = "open_session E u1 a1 b1 uid" and ?o2 = "open_session E u2 a2 b2 uid"
  let ?s1 = "opened E u1 a1 b1 uid s" let ?s2 = "opened E u2 a2 b2 uid ?s1"
  have ok1: "relay_ok ?s1" by (rule relay_ok_opened [OF assms(3,7)])
  have new2: "uuid_text E u2 \<notin> session_ids ?s1" using assms(8,9) by (simp add: opened_def)
  obtain r1 where r1: "run ?o1 s = (Inr r1, ?s1)" using assms(1,7) id by (simp add: run_open_session)
  obtain r2 where r2: "run ?o2 ?s1 = (Inr r2, ?s2)"
    using assms(1) new2 id by (simp add: run_open_session) (simp add: opened_def user_ids_def)
  have "(sched env req)\<^sup>*\<^sup>* (s, [?o1, ?o2]) (?s2, [pure r1, pure r2])"
    using sched_run [of 0 "[?o1, ?o2]" ?o1 s r1 ?s1 env req] sched_run [of 1 "[pure r1, ?o2]" ?o2 ?s1 r2 ?s2 env req] r1 r2
    by simp
  then have "(sched env req)\<^sup>*\<^sup>* (s, [relay_create E u1 a1 b1 hs, relay_create E u2 a2 b2 hs]) (?s2, [pure r1, pure r2])"
    using create_checked [OF assms(1,4) _ assms(6), of 0 "[?o1, relay_create E u2 a2 b2 hs]" env req u1 a1 b1]
      create_checked [OF assms(1,4) _ assms(6), of 1 "[?o1, ?o2]" env req u2 a2 b2] assms(5)
    by simp
  moreover have "session_count ?s2 = Suc (Suc (session_count s))"
    using count_opened [OF assms(3,7)] count_opened [OF ok1 new2] by simp
  moreover have "config ?s2 = config s" by (simp add: opened_def)
  ultimately show ?thesis using assms(5) by (intro exI [of _ ?s2] exI [of _ "[pure r1, pure r2]"]) simp
qed


section \<open>Witnesses\<close>

lemma sample_relay_ok: "relay_ok sample_home"
  by (simp add: relay_ok_def sample_home_def sample_server_simps keys_ok_def hms.disjoint_def)

lemma sample_session_ids: "sessions sample_db = []" "session_count sample_home = 0"
  "spawned sample_home = []" "next_arc sample_home = 0"
  by (simp_all add: sample_db_def empty_db_def session_count_def sample_home_def sample_server_def new_state_def)

lemma sample_relay_config: "relay_enabled (cfg_relay sample_config)" "max_sessions (cfg_relay sample_config) = 0"
  "session_timeout_seconds (cfg_relay sample_config) = 30"
  by (simp_all add: sample_config_def relay_default_def)

lemma sample_uuid: "uuid_text sample_ext b = concat (map hex_byte b)"
  by (simp add: sample_ext_def)

theorem relay_handshake_witness:
  "let create = run (relay_create sample_ext [] [1] [2] (bearer sample_token)) sample_home;
       join = run (relay_join sample_ext (bearer sample_token) []) (snd create);
       upgrade_a = run (relay_ws sample_ext [] (Some (generate_token sample_ext [1]))) (snd join);
       upgrade_b = run (relay_ws sample_ext [] (Some (generate_token sample_ext [2]))) (snd upgrade_a)
   in fst join = Inr (json_response 200 [(''token_b'', JStr (generate_token sample_ext [2]))]) \<and>
      spawned (snd upgrade_b) = [CreatorWs 0 [] 30, JoinerWs 0]"
  using relay_handshake [of sample_home sample_ext "bearer sample_token" 1 "bearer sample_token" 1 "[]" "[1]" "[2]",
      OF _ _ sample_relay_ok _ _ sample_auth sample_auth]
  by (simp add: sample_db_ok sample_session_ids sample_uuid sample_relay_config Let_def)

definition sample_busy :: app_state where
  "sample_busy = sample_home\<lparr>config := sample_config\<lparr>cfg_relay := relay_default\<lparr>max_sessions := 1\<rparr>\<rparr>\<rparr>"

lemma sample_busy_simps:
  "faults sample_busy = []" "pool sample_busy = sample_db" "relay_enabled (cfg_relay (config sample_busy))"
  "max_sessions (cfg_relay (config sample_busy)) = 1" "session_count sample_busy = 0" "sessions sample_db = []"
  using sample_session_ids
  by (simp_all add: sample_busy_def relay_default_def session_count_def)

lemma sample_busy_auth: "run (resolve_token sample_ext (bearer sample_token)) sample_busy = (Inr 1, sample_busy)"
  by (rule resolve_frame [OF _ _ _ _ sample_auth]) (simp_all add: sample_busy_def)

lemma sample_busy_ok: "relay_ok sample_busy"
  using sample_relay_ok by (simp add: relay_ok_def sample_busy_def)

theorem relay_limit_race_witness:
  "\<exists>t ps. (sched (\<lambda>_ _. False) (\<lambda>_. False))\<^sup>*\<^sup>*
     (sample_busy, [relay_create sample_ext [0] [] [] (bearer sample_token),
                    relay_create sample_ext [1] [] [] (bearer sample_token)]) (t, ps) \<and>
     session_count t = Suc (unat (max_sessions (cfg_relay (config t))))"
  by (rule relay_limit_race [OF _ _ sample_busy_ok _ _ sample_busy_auth])
    (simp_all add: sample_busy_simps sample_db_ok sample_uuid hex_byte_def hex_digit_def)

definition sample_init :: initialized_relay where
  "sample_init = \<lparr>ir_token_a_hash = hash_token sample_ext ''a'', ir_token_b = ''b'', ir_token_b_hash = hash_token sample_ext ''b'',
     ir_creator_id = 1, ir_created_at = 0\<rparr>"

definition sample_waiting :: app_state where
  "sample_waiting = sample_home\<lparr>relay_init := [(''S'', sample_init)]\<rparr>"

lemma sample_waiting_simps:
  "faults sample_waiting = []" "config sample_waiting = sample_config"
  "map_of (relay_init sample_waiting) ''S'' = Some sample_init" "ir_token_a_hash sample_init = hash_token sample_ext ''a''"
  by (simp_all add: sample_waiting_def sample_init_def)

theorem relay_join_after_creator_witness:
  "fst (run (relay_join sample_ext (bearer sample_token) ''S'')
     (snd (run (relay_ws sample_ext ''S'' (Some ''a'')) sample_waiting))) = Inl (Fail (NotFound ''session_not_found''))"
proof -
  have "run (resolve_token sample_ext (bearer sample_token)) sample_waiting = (Inr 1, sample_waiting)"
    by (rule resolve_frame [OF _ _ _ _ sample_auth]) (simp_all add: sample_waiting_def)
  then show ?thesis
    using relay_join_after_creator [of sample_waiting sample_ext "bearer sample_token" 1 "''S''" sample_init "''a''"]
    by (simp add: sample_waiting_simps sample_relay_config Let_def)
qed

theorem cleanup_exact_witness:
  "map_of (relay_init (snd (run cleanup_pass (sample_waiting\<lparr>mono_now := secs 60\<rparr>)))) ''S'' = None \<and>
   relay_init sample_waiting \<noteq> []"
proof -
  have "relay_ok (sample_waiting\<lparr>pool := sample_db\<lparr>sessions := [\<lparr>s_id = ''S'', s_creator = Some 1, s_joiner = None,
      s_created = [], s_bytes = 0\<rparr>]\<rparr>, mono_now := secs 60\<rparr>)" (is "relay_ok ?s")
    by (simp add: relay_ok_def sample_waiting_def sample_home_def sample_server_simps keys_ok_def hms.disjoint_def)
  then have "map_of (relay_init (snd (run cleanup_pass ?s))) ''S'' = None"
  proof -
    have t: "unat (session_timeout_seconds (cfg_relay (config ?s))) = 30"
      by (simp add: sample_waiting_def sample_relay_config)
    have v: "map_of (relay_init ?s) ''S'' = Some sample_init" by (simp add: sample_waiting_def)
    have n: "\<not> mono_now ?s - ir_created_at sample_init < secs (30 + 30)" by (simp add: sample_init_def)
    have "(30 :: nat) < 18446744073709551586" by simp
    then show ?thesis
      using cleanup_exact [OF \<open>relay_ok ?s\<close>, of "''S''"] unfolding Let_def t v by (simp only: option.case n if_True if_False)
  qed
  moreover have "relay_init (snd (run cleanup_pass ?s)) =
      relay_init (snd (run cleanup_pass (sample_waiting\<lparr>mono_now := secs 60\<rparr>)))"
    by (simp add: run_cleanup split: option.split)
  ultimately show ?thesis by (simp add: sample_waiting_def)
qed

end
