(* ===== verification/Relay_Ws.thy ===== *)
theory Relay_Ws
  imports Relay "HOL-Library.Sublist"
begin

text \<open>
  The two WebSocket tasks of a relay session (\<open>creator_ws\<close> and \<open>joiner_ws\<close> of \<open>src/relay.rs\<close>). A
  configuration is the server, the state of both tasks, what their sockets were sent (\<open>out_a\<close>,
  \<open>out_b\<close>) and the data frames read from them (\<open>in_a\<close>, \<open>in_b\<close>). Each branch of each \<open>select!\<close> is a
  step of the relation \<open>ws_step\<close>; \<open>Others\<close> is the rest of the server, which does not touch the
  channels of this session and may at most remove its table entry. (\<open>others_sound\<close> in
  \<open>Relay_Server\<close> says that it is). \<open>ws_run_inv\<close> is the invariant
  of all executions.
\<close>

section \<open>The two tasks\<close>

fun data_msg :: "ws_msg \<Rightarrow> bool" where
  "data_msg (Text t) = True"
| "data_msg (Binary b) = True"
| "data_msg (Ping p) = False"
| "data_msg (Pong p) = False"
| "data_msg Close = False"

text \<open>What \<open>stream.next()\<close> yields: \<open>None\<close>, \<open>Some(Err(_))\<close>, or a frame.\<close>

datatype incoming = StreamEnd | StreamErr | Frame ws_msg

datatype creator_task = CStart | CWait nat "ws_msg list" | CRelay | CEnd | CPanic
datatype joiner_task = JAbsent | JStart | JRelay | JEnd

record relay_conf =
  srv :: app_state
  cre :: creator_task
  joi :: joiner_task
  out_a :: "ws_msg list"
  out_b :: "ws_msg list"
  in_a :: "ws_msg list"
  in_b :: "ws_msg list"

definition set_chan :: "nat \<Rightarrow> (channels \<Rightarrow> channels) \<Rightarrow> relay_conf \<Rightarrow> relay_conf" where
  "set_chan a f c = c\<lparr>srv := (srv c)\<lparr>arcs := (arcs (srv c))(a := f (arcs (srv c) a))\<rparr>\<rparr>"

abbreviation chan :: "nat \<Rightarrow> relay_conf \<Rightarrow> channels" where
  "chan a c \<equiv> arcs (srv c) a"

text \<open>
  A receiver lives while it is in its \<open>Mutex\<close> or held by the task that took it; a message sent to a
  channel without receiver is dropped (\<open>.ok()\<close>). The senders of both channels live while anyone
  holds the \<open>Arc\<close>.
\<close>

definition b_listens :: "nat \<Rightarrow> relay_conf \<Rightarrow> bool" where
  "b_listens a c \<longleftrightarrow> a_to_b_rx (chan a c) \<or> joi c = JRelay"

definition a_listens :: "nat \<Rightarrow> relay_conf \<Rightarrow> bool" where
  "a_listens a c \<longleftrightarrow> b_to_a_rx (chan a c) \<or> cre c = CRelay \<or> (\<exists>d buf. cre c = CWait d buf)"

definition push_a_to_b :: "nat \<Rightarrow> ws_msg \<Rightarrow> relay_conf \<Rightarrow> relay_conf" where
  "push_a_to_b a m c = (if b_listens a c then set_chan a (send_a_to_b m) c else c)"

definition push_b_to_a :: "nat \<Rightarrow> ws_msg \<Rightarrow> relay_conf \<Rightarrow> relay_conf" where
  "push_b_to_a a m c = (if a_listens a c then set_chan a (send_b_to_a m) c else c)"

definition arc_held :: "nat \<Rightarrow> string \<Rightarrow> relay_conf \<Rightarrow> bool" where
  "arc_held a sid c \<longleftrightarrow> cre c \<notin> {CEnd, CPanic} \<or> joi c \<in> {JStart, JRelay} \<or>
     (\<exists>p. map_of (relay_pending (srv c)) sid = Some p \<and> pr_arc p = a)"

definition drop_pending :: "string \<Rightarrow> relay_conf \<Rightarrow> relay_conf" where
  "drop_pending sid c = c\<lparr>srv := (srv c)\<lparr>relay_pending := AList.delete sid (relay_pending (srv c))\<rparr>\<rparr>"

text \<open>
  \<open>Instant::now() + Duration::from_secs(timeout)\<close>: the seconds of an \<open>Instant\<close> are a signed 64-bit
  number and the addition panics when they do not fit.
\<close>

definition deadline_of :: "nat \<Rightarrow> u64 \<Rightarrow> nat option" where
  "deadline_of now t = (if now div 1000000000 + unat t < 2 ^ 63 then Some (now + secs (unat t)) else None)"

definition creator_start :: "nat \<Rightarrow> u64 \<Rightarrow> relay_conf \<Rightarrow> relay_conf" where
  "creator_start a t c =
     (if b_to_a_rx (chan a c)
      then (set_chan a (\<lambda>ch. ch\<lparr>b_to_a_rx := False\<rparr>) c)\<lparr>cre :=
             (case deadline_of (mono_now (srv c)) t of None \<Rightarrow> CPanic | Some d \<Rightarrow> CWait d [])\<rparr>
      else c\<lparr>cre := CEnd\<rparr>)"

text \<open>Phase 1: a frame of A while waiting; \<open>ok\<close> says whether A's socket takes the \<open>Pong\<close>.\<close>

definition creator_wait :: "string \<Rightarrow> nat \<Rightarrow> ws_msg list \<Rightarrow> incoming \<Rightarrow> bool \<Rightarrow> relay_conf \<Rightarrow> relay_conf" where
  "creator_wait sid d buf i ok c =
     (case i of
        Frame m \<Rightarrow>
          if data_msg m then c\<lparr>cre := CWait d (buf @ [m]), in_a := in_a c @ [m]\<rparr>
          else (case m of
              Ping p \<Rightarrow> c\<lparr>out_a := out_a c @ (if ok then [Pong p] else [])\<rparr>
            | Close \<Rightarrow> (drop_pending sid c)\<lparr>cre := CEnd\<rparr>
            | _ \<Rightarrow> c)
      | _ \<Rightarrow> (drop_pending sid c)\<lparr>cre := CEnd\<rparr>)"

definition creator_ready :: "nat \<Rightarrow> ws_msg list \<Rightarrow> relay_conf \<Rightarrow> relay_conf" where
  "creator_ready a buf c =
     (fold (push_a_to_b a) buf (set_chan a (\<lambda>ch. ch\<lparr>joiner_ready := False\<rparr>) c))\<lparr>cre := CRelay\<rparr>"

definition creator_timeout :: "string \<Rightarrow> relay_conf \<Rightarrow> relay_conf" where
  "creator_timeout sid c = (drop_pending sid c)\<lparr>cre := CEnd\<rparr>"

text \<open>Phase 2.\<close>

definition creator_relay :: "nat \<Rightarrow> incoming \<Rightarrow> bool \<Rightarrow> relay_conf \<Rightarrow> relay_conf" where
  "creator_relay a i ok c =
     (case i of
        Frame m \<Rightarrow>
          if data_msg m then (push_a_to_b a m c)\<lparr>in_a := in_a c @ [m]\<rparr>
          else (case m of
              Ping p \<Rightarrow> c\<lparr>out_a := out_a c @ (if ok then [Pong p] else [])\<rparr>
            | _ \<Rightarrow> c\<lparr>cre := CEnd\<rparr>)
      | _ \<Rightarrow> c\<lparr>cre := CEnd\<rparr>)"

definition creator_forward :: "nat \<Rightarrow> ws_msg \<Rightarrow> channels \<Rightarrow> bool \<Rightarrow> relay_conf \<Rightarrow> relay_conf" where
  "creator_forward a m ch ok c =
     (let c' = set_chan a (\<lambda>_. ch) c
      in if ok then c'\<lparr>out_a := out_a c @ [m]\<rparr> else c'\<lparr>cre := CEnd\<rparr>)"

definition joiner_start :: "nat \<Rightarrow> relay_conf \<Rightarrow> relay_conf" where
  "joiner_start a c =
     (if a_to_b_rx (chan a c)
      then (set_chan a (\<lambda>ch. ch\<lparr>a_to_b_rx := False, joiner_ready := True\<rparr>) c)\<lparr>joi := JRelay\<rparr>
      else c\<lparr>joi := JEnd\<rparr>)"

definition joiner_relay :: "nat \<Rightarrow> incoming \<Rightarrow> bool \<Rightarrow> relay_conf \<Rightarrow> relay_conf" where
  "joiner_relay a i ok c =
     (case i of
        Frame m \<Rightarrow>
          if data_msg m then (push_b_to_a a m c)\<lparr>in_b := in_b c @ [m]\<rparr>
          else (case m of
              Ping p \<Rightarrow> c\<lparr>out_b := out_b c @ (if ok then [Pong p] else [])\<rparr>
            | _ \<Rightarrow> c\<lparr>joi := JEnd\<rparr>)
      | _ \<Rightarrow> c\<lparr>joi := JEnd\<rparr>)"

definition joiner_forward :: "nat \<Rightarrow> ws_msg \<Rightarrow> channels \<Rightarrow> bool \<Rightarrow> relay_conf \<Rightarrow> relay_conf" where
  "joiner_forward a m ch ok c =
     (let c' = set_chan a (\<lambda>_. ch) c
      in if ok then c'\<lparr>out_b := out_b c @ [m]\<rparr> else c'\<lparr>joi := JEnd\<rparr>)"

section \<open>Executions of a session\<close>

datatype ws_event =
    AStart | AWait incoming bool | AReady | ATimeout | ARelay incoming bool | AForward bool | AClosed
  | BConnect string | BStart | BRelay incoming bool | BForward bool | BClosed
  | Others

inductive ws_step :: "nat \<Rightarrow> string \<Rightarrow> u64 \<Rightarrow> relay_conf \<Rightarrow> ws_event \<Rightarrow> relay_conf \<Rightarrow> bool"
  for a sid t
where
  a_start: "cre c = CStart \<Longrightarrow> ws_step a sid t c AStart (creator_start a t c)"
| a_wait: "cre c = CWait d buf \<Longrightarrow> ws_step a sid t c (AWait i ok) (creator_wait sid d buf i ok c)"
| a_ready: "cre c = CWait d buf \<Longrightarrow> joiner_ready (chan a c) \<Longrightarrow> ws_step a sid t c AReady (creator_ready a buf c)"
| a_timeout: "cre c = CWait d buf \<Longrightarrow> d \<le> mono_now (srv c) \<Longrightarrow> ws_step a sid t c ATimeout (creator_timeout sid c)"
| a_relay: "cre c = CRelay \<Longrightarrow> ws_step a sid t c (ARelay i ok) (creator_relay a i ok c)"
| a_forward: "cre c = CRelay \<Longrightarrow> recv_b_to_a (chan a c) = Some (m, ch) \<Longrightarrow>
    ws_step a sid t c (AForward ok) (creator_forward a m ch ok c)"
| a_closed: "cre c = CRelay \<Longrightarrow> recv_b_to_a (chan a c) = None \<Longrightarrow> \<not> arc_held a sid c \<Longrightarrow>
    ws_step a sid t c AClosed (c\<lparr>cre := CEnd\<rparr>)"
| b_connect: "joi c = JAbsent \<Longrightarrow> take_pending hash sid (srv c) = (Some p, s) \<Longrightarrow> pr_arc p = a \<Longrightarrow>
    ws_step a sid t c (BConnect hash) (c\<lparr>srv := s, joi := JStart\<rparr>)"
| b_start: "joi c = JStart \<Longrightarrow> ws_step a sid t c BStart (joiner_start a c)"
| b_relay: "joi c = JRelay \<Longrightarrow> ws_step a sid t c (BRelay i ok) (joiner_relay a i ok c)"
| b_forward: "joi c = JRelay \<Longrightarrow> recv_a_to_b (chan a c) = Some (m, ch) \<Longrightarrow>
    ws_step a sid t c (BForward ok) (joiner_forward a m ch ok c)"
| b_closed: "joi c = JRelay \<Longrightarrow> recv_a_to_b (chan a c) = None \<Longrightarrow> \<not> arc_held a sid c \<Longrightarrow>
    ws_step a sid t c BClosed (c\<lparr>joi := JEnd\<rparr>)"
| others: "arcs s a = chan a c \<Longrightarrow> mono_now (srv c) \<le> mono_now s \<Longrightarrow>
    map_of (relay_pending s) sid \<in> {map_of (relay_pending (srv c)) sid, None} \<Longrightarrow>
    ws_step a sid t c Others (c\<lparr>srv := s\<rparr>)"

inductive ws_run :: "nat \<Rightarrow> string \<Rightarrow> u64 \<Rightarrow> relay_conf \<Rightarrow> ws_event list \<Rightarrow> relay_conf \<Rightarrow> bool"
  for a sid t
where
  ws_nil: "ws_run a sid t c [] c"
| ws_cons: "ws_run a sid t c es c' \<Longrightarrow> ws_step a sid t c' e c'' \<Longrightarrow> ws_run a sid t c (es @ [e]) c''"

text \<open>The creator's task has just been spawned.\<close>

definition ws_start :: "nat \<Rightarrow> app_state \<Rightarrow> relay_conf" where
  "ws_start a s = \<lparr>srv = s, cre = CStart, joi = JAbsent, out_a = [], out_b = [], in_a = [], in_b = []\<rparr>"


inductive_cases ws_step_cases [consumes 1, case_names a_start a_wait a_ready a_timeout a_relay a_forward a_closed
  b_connect b_start b_relay b_forward b_closed others]: "ws_step a sid t c e c'"

lemma set_chan_simps [simp]:
  "chan a (set_chan a f c) = f (chan a c)" "cre (set_chan a f c) = cre c" "joi (set_chan a f c) = joi c"
  "out_a (set_chan a f c) = out_a c" "out_b (set_chan a f c) = out_b c"
  "in_a (set_chan a f c) = in_a c" "in_b (set_chan a f c) = in_b c"
  "relay_pending (srv (set_chan a f c)) = relay_pending (srv c)" "mono_now (srv (set_chan a f c)) = mono_now (srv c)"
  by (simp_all add: set_chan_def)

lemma drop_pending_simps [simp]:
  "chan a (drop_pending sid c) = chan a c" "cre (drop_pending sid c) = cre c" "joi (drop_pending sid c) = joi c"
  "out_a (drop_pending sid c) = out_a c" "out_b (drop_pending sid c) = out_b c"
  "in_a (drop_pending sid c) = in_a c" "in_b (drop_pending sid c) = in_b c"
  "map_of (relay_pending (srv (drop_pending sid c))) sid = None"
  by (simp_all add: drop_pending_def map_of_delete)

text \<open>Sending a list of messages.\<close>

lemma push_all_a:
  "fold (push_a_to_b a) ms c = (if b_listens a c then set_chan a (fold send_a_to_b ms) c else c)"
proof (induction ms arbitrary: c)
  case Nil
  then show ?case by (simp add: set_chan_def)
next
  case (Cons m ms)
  have "b_listens a (set_chan a (send_a_to_b m) c) = b_listens a c" by (simp add: b_listens_def send_a_to_b_def)
  then show ?case using Cons.IH by (simp add: push_a_to_b_def) (simp add: set_chan_def)
qed

lemma fold_send_simps [simp]:
  "a_to_b (fold send_a_to_b ms ch) = a_to_b ch @ ms" "b_to_a (fold send_a_to_b ms ch) = b_to_a ch"
  "a_to_b_rx (fold send_a_to_b ms ch) = a_to_b_rx ch" "b_to_a_rx (fold send_a_to_b ms ch) = b_to_a_rx ch"
  "joiner_ready (fold send_a_to_b ms ch) = joiner_ready ch"
  by (induction ms arbitrary: ch) (auto simp: send_a_to_b_def)

section \<open>What holds in every execution\<close>

definition data_of :: "ws_msg list \<Rightarrow> ws_msg list" where
  "data_of ms = filter data_msg ms"

lemma data_of_simps [simp]: "data_of [] = []" "data_of (ms @ ns) = data_of ms @ data_of ns"
  "data_of (m # ms) = (if data_msg m then m # data_of ms else data_of ms)"
  by (simp_all add: data_of_def)

fun waiting :: "creator_task \<Rightarrow> ws_msg list" where
  "waiting (CWait d buf) = buf"
| "waiting k = []"

definition wiring :: "nat \<Rightarrow> string \<Rightarrow> relay_conf \<Rightarrow> bool" where
  "wiring a sid c \<longleftrightarrow>
     (a_to_b_rx (chan a c) \<longleftrightarrow> joi c \<in> {JAbsent, JStart}) \<and> (b_to_a_rx (chan a c) \<longleftrightarrow> cre c = CStart) \<and>
     (joiner_ready (chan a c) \<longrightarrow> joi c \<in> {JRelay, JEnd}) \<and> (cre c = CRelay \<longrightarrow> joi c \<in> {JRelay, JEnd}) \<and>
     (map_of (relay_pending (srv c)) sid \<noteq> None \<longrightarrow> joi c = JAbsent \<and> cre c \<noteq> CEnd \<and> cre c \<noteq> CRelay)"

definition only_data :: "nat \<Rightarrow> relay_conf \<Rightarrow> bool" where
  "only_data a c \<longleftrightarrow> list_all data_msg (a_to_b (chan a c) @ b_to_a (chan a c) @ waiting (cre c))"

definition history_a :: "nat \<Rightarrow> relay_conf \<Rightarrow> bool" where
  "history_a a c \<longleftrightarrow> prefix (data_of (out_b c)) (in_a c) \<and>
     (joi c \<noteq> JEnd \<longrightarrow> prefix (data_of (out_b c) @ a_to_b (chan a c)) (in_a c)) \<and>
     (joi c \<noteq> JEnd \<and> cre c \<notin> {CEnd, CPanic} \<longrightarrow>
        data_of (out_b c) @ a_to_b (chan a c) @ waiting (cre c) = in_a c)"

definition history_b :: "nat \<Rightarrow> relay_conf \<Rightarrow> bool" where
  "history_b a c \<longleftrightarrow> prefix (data_of (out_a c)) (in_b c) \<and>
     (cre c \<notin> {CEnd, CPanic} \<longrightarrow> data_of (out_a c) @ b_to_a (chan a c) = in_b c)"

lemmas task_defs = creator_start_def creator_wait_def creator_ready_def creator_timeout_def creator_relay_def
  creator_forward_def joiner_start_def joiner_relay_def joiner_forward_def push_a_to_b_def push_b_to_a_def
  push_all_a send_a_to_b_def send_b_to_a_def

lemma wiring_step: "ws_step a sid t c e c' \<Longrightarrow> wiring a sid c \<Longrightarrow> wiring a sid c'"
proof (induction rule: ws_step.induct)
  case (a_start c)
  then show ?case by (auto simp: wiring_def task_defs split: option.split)
next
  case (a_wait c d buf i ok)
  then show ?case by (auto simp: wiring_def task_defs split: incoming.split ws_msg.split)
next
  case (a_ready c d buf)
  then show ?case by (auto simp: wiring_def task_defs)
next
  case (a_timeout c d buf)
  then show ?case by (auto simp: wiring_def task_defs)
next
  case (a_relay c i ok)
  then show ?case by (auto simp: wiring_def task_defs split: incoming.split ws_msg.split)
next
  case (a_forward c m ch ok)
  then show ?case by (auto simp: wiring_def task_defs Let_def recv_b_to_a_def split: list.splits)
next
  case (b_connect c hash p s)
  then show ?case by (auto simp: wiring_def take_pending_def map_of_delete split: option.splits if_splits)
next
  case (b_relay c i ok)
  then show ?case by (auto simp: wiring_def task_defs split: incoming.split ws_msg.split)
next
  case (b_forward c m ch ok)
  then show ?case by (auto simp: wiring_def task_defs Let_def recv_a_to_b_def split: list.splits)
qed (auto simp: wiring_def task_defs)

lemma only_data_step: "ws_step a sid t c e c' \<Longrightarrow> only_data a c \<Longrightarrow> only_data a c'"
proof (induction rule: ws_step.induct)
  case (a_start c)
  then show ?case by (auto simp: only_data_def task_defs split: option.split)
next
  case (a_wait c d buf i ok)
  then show ?case by (auto simp: only_data_def task_defs split: incoming.split ws_msg.split)
next
  case (a_relay c i ok)
  then show ?case by (auto simp: only_data_def task_defs split: incoming.split ws_msg.split)
next
  case (a_forward c m ch ok)
  then show ?case by (auto simp: only_data_def task_defs Let_def recv_b_to_a_def split: list.splits)
next
  case (b_connect c hash p s)
  then show ?case by (auto simp: only_data_def take_pending_def split: option.splits if_splits)
next
  case (b_relay c i ok)
  then show ?case by (auto simp: only_data_def task_defs split: incoming.split ws_msg.split)
next
  case (b_forward c m ch ok)
  then show ?case by (auto simp: only_data_def task_defs Let_def recv_a_to_b_def split: list.splits)
qed (auto simp: only_data_def task_defs)


lemma b_listens_wiring: "wiring a sid c \<Longrightarrow> b_listens a c \<longleftrightarrow> joi c \<noteq> JEnd"
  by (cases "joi c") (auto simp: b_listens_def wiring_def)

lemma a_listens_wiring: "wiring a sid c \<Longrightarrow> a_listens a c \<longleftrightarrow> cre c \<noteq> CEnd \<and> cre c \<noteq> CPanic"
  by (cases "cre c") (auto simp: a_listens_def wiring_def)

lemma history_a_step:
  "ws_step a sid t c e c' \<Longrightarrow> wiring a sid c \<Longrightarrow> only_data a c \<Longrightarrow> history_a a c \<Longrightarrow> history_a a c'"
proof (induction rule: ws_step.induct)
  case (a_start c)
  then show ?case by (auto simp: history_a_def task_defs split: option.split)
next
  case (a_wait c d buf i ok)
  then show ?case by (auto simp: history_a_def task_defs prefix_def split: incoming.split ws_msg.split)
next
  case (a_ready c d buf)
  then show ?case by (auto simp: history_a_def task_defs b_listens_def wiring_def prefix_def)
next
  case (a_timeout c d buf)
  then show ?case by (auto simp: history_a_def task_defs prefix_def)
next
  case (a_relay c i ok)
  then show ?case
    by (auto simp: history_a_def task_defs b_listens_wiring prefix_def split: incoming.split ws_msg.split)
next
  case (a_forward c m ch ok)
  then show ?case
    by (auto simp: history_a_def task_defs Let_def recv_b_to_a_def only_data_def split: list.splits)
next
  case (b_connect c hash p s)
  then show ?case by (auto simp: history_a_def take_pending_def split: option.splits if_splits)
next
  case (b_relay c i ok)
  then show ?case by (auto simp: history_a_def task_defs split: incoming.split ws_msg.split)
next
  case (b_forward c m ch ok)
  then show ?case
    by (auto simp: history_a_def task_defs Let_def recv_a_to_b_def only_data_def prefix_def split: list.splits)
qed (auto simp: history_a_def task_defs)

lemma history_b_step:
  "ws_step a sid t c e c' \<Longrightarrow> wiring a sid c \<Longrightarrow> only_data a c \<Longrightarrow> history_b a c \<Longrightarrow> history_b a c'"
proof (induction rule: ws_step.induct)
  case (a_start c)
  then show ?case by (auto simp: history_b_def task_defs split: option.split)
next
  case (a_wait c d buf i ok)
  then show ?case by (auto simp: history_b_def task_defs split: incoming.split ws_msg.split)
next
  case (a_relay c i ok)
  then show ?case by (auto simp: history_b_def task_defs split: incoming.split ws_msg.split)
next
  case (a_forward c m ch ok)
  then show ?case
    by (auto simp: history_b_def task_defs Let_def recv_b_to_a_def only_data_def prefix_def split: list.splits)
next
  case (b_connect c hash p s)
  then show ?case by (auto simp: history_b_def take_pending_def split: option.splits if_splits)
next
  case (b_relay c i ok)
  then show ?case
    by (auto simp: history_b_def task_defs a_listens_wiring prefix_def split: incoming.split ws_msg.split)
next
  case (b_forward c m ch ok)
  then show ?case
    by (auto simp: history_b_def task_defs Let_def recv_a_to_b_def only_data_def split: list.splits)
qed (auto simp: history_b_def task_defs)

definition fresh_session :: "nat \<Rightarrow> string \<Rightarrow> app_state \<Rightarrow> bool" where
  "fresh_session a sid s \<longleftrightarrow> arcs s a = new_channels \<and> (\<exists>p. map_of (relay_pending s) sid = Some p \<and> pr_arc p = a)"

lemma ws_run_inv:
  assumes "ws_run a sid t (ws_start a s) es c" "arcs s a = new_channels"
  shows "wiring a sid c \<and> only_data a c \<and> history_a a c \<and> history_b a c"
  using assms(1)
proof (induction "ws_start a s" es c rule: ws_run.induct)
  case ws_nil
  then show ?case using assms(2)
    by (auto simp: wiring_def only_data_def history_a_def history_b_def ws_start_def new_channels_def)
next
  case (ws_cons es c e c')
  note inv = ws_cons.hyps(2)
  show ?case
    using wiring_step [OF ws_cons.hyps(3)] only_data_step [OF ws_cons.hyps(3)]
      history_a_step [OF ws_cons.hyps(3)] history_b_step [OF ws_cons.hyps(3)] inv by simp
qed

section \<open>What a session guarantees\<close>

text \<open>C6. In every execution of a session each peer has received a prefix of the data frames the
  other one sent, in order and without duplicates; while both tasks relay, what is missing is exactly
  what waits in the channel (and, before the joiner came, in the creator's buffer).\<close>

theorem relay_in_order:
  assumes "ws_run a sid t (ws_start a s) es c" "fresh_session a sid s"
  shows "prefix (data_of (out_b c)) (in_a c) \<and> prefix (data_of (out_a c)) (in_b c) \<and>
    (cre c = CRelay \<and> joi c = JRelay \<longrightarrow>
       data_of (out_b c) @ a_to_b (chan a c) = in_a c \<and> data_of (out_a c) @ b_to_a (chan a c) = in_b c)"
  using ws_run_inv [OF assms(1)] assms(2) by (auto simp: history_a_def history_b_def fresh_session_def)

lemma drain_run:
  "ws_run a sid t c0 es c \<Longrightarrow> joi c = JRelay \<Longrightarrow> a_to_b (chan a c) = ms \<Longrightarrow>
     \<exists>c'. ws_run a sid t c0 (es @ replicate (length ms) (BForward True)) c' \<and>
       out_b c' = out_b c @ ms \<and> in_a c' = in_a c"
proof (induction ms arbitrary: es c)
  case Nil
  then show ?case by auto
next
  case (Cons m ms)
  let ?ch = "(chan a c)\<lparr>a_to_b := ms\<rparr>" let ?c = "joiner_forward a m ?ch True c"
  have "recv_a_to_b (chan a c) = Some (m, ?ch)" using Cons.prems(3) by (simp add: recv_a_to_b_def)
  then have "ws_step a sid t c (BForward True) ?c" using Cons.prems(2) by (intro b_forward) auto
  then have run: "ws_run a sid t c0 (es @ [BForward True]) ?c" by (rule ws_cons [OF Cons.prems(1)])
  have c: "joi ?c = JRelay" "a_to_b (chan a ?c) = ms" "out_b ?c = out_b c @ [m]" "in_a ?c = in_a c"
    using Cons.prems(2) by (simp_all add: joiner_forward_def)
  from Cons.IH [OF run c(1,2)] c(3,4) show ?case by auto
qed

text \<open>C24. While both tasks relay and the joiner's socket takes what it is sent, everything the creator
  has sent is delivered after as many steps as messages wait.\<close>

theorem relay_drains:
  assumes "ws_run a sid t (ws_start a s) es c" "fresh_session a sid s" "cre c = CRelay" "joi c = JRelay"
  shows "\<exists>c'. ws_run a sid t (ws_start a s) (es @ replicate (length (a_to_b (chan a c))) (BForward True)) c' \<and>
     data_of (out_b c') = in_a c"
proof -
  have inv: "only_data a c \<and> history_a a c" using ws_run_inv [OF assms(1)] assms(2) by (simp add: fresh_session_def)
  then have "data_of (a_to_b (chan a c)) = a_to_b (chan a c)" by (simp add: data_of_def only_data_def filter_id_conv list_all_iff)
  then show ?thesis using drain_run [OF assms(1,4) refl] inv assms(3,4) by (auto simp: history_a_def)
qed

text \<open>A's socket asks for nothing but data and pings, and takes what it is sent.\<close>

fun quiet :: "ws_event \<Rightarrow> bool" where
  "quiet (ARelay (Frame m) ok) = (data_msg m \<or> (\<exists>p. m = Ping p))"
| "quiet (ARelay i ok) = False"
| "quiet (AForward ok) = ok"
| "quiet e = True"

lemma quiet_step:
  assumes "ws_step a sid t c e c'" "wiring a sid c" "cre c = CRelay" "joi c = JEnd" "quiet e"
  shows "cre c' = CRelay \<and> joi c' = JEnd \<and> out_b c' = out_b c \<and> a_to_b (chan a c') = a_to_b (chan a c)"
  using assms(1)
proof (cases rule: ws_step_cases)
  case (a_relay i ok)
  then show ?thesis using assms(2-5)
    by (auto simp: creator_relay_def push_a_to_b_def b_listens_wiring split: incoming.splits ws_msg.splits)
next
  case (a_forward m ch ok)
  then show ?thesis using assms(2-5)
    by (auto simp: creator_forward_def Let_def recv_b_to_a_def split: list.splits)
next
  case a_closed
  then show ?thesis using assms(3) by (simp add: arc_held_def)
qed (use assms(3,4) in auto)

lemma quiet_run:
  "ws_run a sid t c es c' \<Longrightarrow> wiring a sid c \<Longrightarrow> cre c = CRelay \<Longrightarrow> joi c = JEnd \<Longrightarrow> list_all quiet es \<Longrightarrow>
     wiring a sid c' \<and> cre c' = CRelay \<and> joi c' = JEnd \<and> out_b c' = out_b c \<and> a_to_b (chan a c') = a_to_b (chan a c)"
proof (induction rule: ws_run.induct)
  case (ws_nil c)
  then show ?case by simp
next
  case (ws_cons c es c1 e c2)
  then show ?case using quiet_step [OF ws_cons.hyps(2)] wiring_step [OF ws_cons.hyps(2)] by simp
qed

text \<open>The session does not end when the joiner disconnects: as long as the creator's own socket
  sends data and pings and takes its replies, its task keeps running, and everything it sends is
  read and dropped. (The task holds the \<open>Arc\<close> with the sender of the channel it receives from, so
  \<open>recv\<close> never yields \<open>None\<close>.)\<close>

theorem relay_peer_left:
  assumes "ws_run a sid t (ws_start a s) es c" "fresh_session a sid s" "cre c = CRelay" "joi c = JEnd"
    and "ws_run a sid t c es' c'" "list_all quiet es'"
  shows "cre c' = CRelay \<and> out_b c' = out_b c \<and> a_to_b (chan a c') = a_to_b (chan a c)"
  using quiet_run [OF assms(5) _ assms(3,4,6)] ws_run_inv [OF assms(1)] assms(2) by (simp add: fresh_session_def)

text \<open>A creator whose deadline has passed can stop waiting, and then the session has left the table
  and no joiner can connect to it.\<close>

theorem relay_wait_ends:
  assumes "ws_run a sid t (ws_start a s) es c" "fresh_session a sid s" "cre c = CWait d buf" "d \<le> mono_now (srv c)"
  shows "\<exists>c'. ws_step a sid t c ATimeout c' \<and> cre c' = CEnd \<and> map_of (relay_pending (srv c')) sid = None \<and>
     (\<forall>hash c''. \<not> ws_step a sid t c' (BConnect hash) c'')"
proof -
  let ?c = "creator_timeout sid c"
  have "ws_step a sid t c ATimeout ?c" using assms(3,4) by (rule a_timeout)
  moreover have "map_of (relay_pending (srv ?c)) sid = None" by (simp add: creator_timeout_def)
  moreover from this have "\<not> ws_step a sid t ?c (BConnect hash) c''" for hash c''
    by (auto simp: take_pending_def elim: ws_step_cases)
  ultimately show ?thesis by (intro exI [of _ ?c]) (simp add: creator_timeout_def)
qed

text \<open>Once the joiner has connected or the creator's task has returned, the session is no longer
  in the table.\<close>

theorem relay_leaves_table:
  assumes "ws_run a sid t (ws_start a s) es c" "fresh_session a sid s" "joi c \<noteq> JAbsent \<or> cre c = CEnd"
  shows "map_of (relay_pending (srv c)) sid = None"
  using ws_run_inv [OF assms(1)] assms(2,3) by (auto simp: wiring_def fresh_session_def)

text \<open>A \<open>Pong\<close> frame, which a waiting creator ignores, ends the task of either peer while relaying.\<close>

theorem relay_pong_ends:
  assumes "ws_step a sid t c (ARelay (Frame (Pong p)) ok) c'" "ws_step a sid t d (AWait (Frame (Pong p)) ok) d'"
    and "ws_step a sid t e (BRelay (Frame (Pong p)) ok) e'"
  shows "cre c' = CEnd \<and> d' = d \<and> joi e' = JEnd"
  using assms by (auto simp: creator_relay_def creator_wait_def joiner_relay_def elim: ws_step_cases)


section \<open>Witnesses\<close>

definition sample_pending :: pending_relay where
  "sample_pending = \<lparr>pr_token_b_hash = ''H'', pr_arc = 0, pr_created_at = 0\<rparr>"

definition sample_upgraded :: app_state where
  "sample_upgraded = sample_home\<lparr>relay_pending := [(''S'', sample_pending)]\<rparr>"

lemma sample_upgraded_simps:
  "arcs sample_upgraded 0 = new_channels" "relay_pending sample_upgraded = [(''S'', sample_pending)]"
  "mono_now sample_upgraded = 0" "pr_token_b_hash sample_pending = ''H''" "pr_arc sample_pending = 0"
  by (simp_all add: sample_upgraded_def sample_home_def sample_server_def new_state_def sample_pending_def)

lemma sample_fresh_session: "fresh_session 0 ''S'' sample_upgraded"
  by (simp add: fresh_session_def sample_upgraded_simps)

definition w1 :: relay_conf where "w1 = creator_start 0 30 (ws_start 0 sample_upgraded)"
definition w2 :: relay_conf where "w2 = w1\<lparr>srv := (srv w1)\<lparr>relay_pending := []\<rparr>, joi := JStart\<rparr>"
definition w3 :: relay_conf where "w3 = joiner_start 0 w2"
definition w4 :: relay_conf where "w4 = creator_ready 0 [] w3"
definition w5 :: relay_conf where "w5 = creator_relay 0 (Frame (Text ''hi'')) True w4"
definition w6 :: relay_conf where "w6 = joiner_relay 0 StreamEnd True w5"
definition w7 :: relay_conf where "w7 = creator_relay 0 (Frame (Text ''you'')) True w6"

lemma w1_simps: "cre w1 = CWait (secs 30) []" "joi w1 = JAbsent" "chan 0 w1 = new_channels\<lparr>b_to_a_rx := False\<rparr>"
  "relay_pending (srv w1) = [(''S'', sample_pending)]" "in_a w1 = []" "out_b w1 = []" "in_b w1 = []"
  by (simp_all add: w1_def creator_start_def ws_start_def sample_upgraded_simps new_channels_def deadline_of_def)

lemma w2_simps: "cre w2 = CWait (secs 30) []" "joi w2 = JStart" "chan 0 w2 = new_channels\<lparr>b_to_a_rx := False\<rparr>"
  "in_a w2 = []" "out_b w2 = []"
  by (simp_all add: w2_def w1_simps)

lemma w3_simps: "cre w3 = CWait (secs 30) []" "joi w3 = JRelay"
  "chan 0 w3 = \<lparr>a_to_b = [], a_to_b_rx = False, b_to_a = [], b_to_a_rx = False, joiner_ready = True\<rparr>"
  "in_a w3 = []" "out_b w3 = []"
  by (simp_all add: w3_def joiner_start_def w2_simps new_channels_def)

lemma w4_simps: "cre w4 = CRelay" "joi w4 = JRelay"
  "chan 0 w4 = \<lparr>a_to_b = [], a_to_b_rx = False, b_to_a = [], b_to_a_rx = False, joiner_ready = False\<rparr>"
  "in_a w4 = []" "out_b w4 = []"
  by (simp_all add: w4_def creator_ready_def w3_simps)

lemma w5_simps: "cre w5 = CRelay" "joi w5 = JRelay"
  "chan 0 w5 = \<lparr>a_to_b = [Text ''hi''], a_to_b_rx = False, b_to_a = [], b_to_a_rx = False, joiner_ready = False\<rparr>"
  "in_a w5 = [Text ''hi'']" "out_b w5 = []"
  by (simp_all add: w5_def creator_relay_def push_a_to_b_def b_listens_def send_a_to_b_def w4_simps)

lemma w6_simps: "cre w6 = CRelay" "joi w6 = JEnd" "out_b w6 = []" "chan 0 w6 = chan 0 w5"
  by (simp_all add: w6_def joiner_relay_def w5_simps)

lemma w2_take: "take_pending ''H'' ''S'' (srv w1) = (Some sample_pending, (srv w1)\<lparr>relay_pending := []\<rparr>)"
  by (simp add: take_pending_def w1_simps sample_upgraded_simps AList.delete_eq)

lemma sample_run1: "ws_run 0 ''S'' 30 (ws_start 0 sample_upgraded) ([] @ [AStart]) w1"
  unfolding w1_def by (intro ws_cons [OF ws_nil] a_start) (simp add: ws_start_def)

lemma sample_run4:
  "ws_run 0 ''S'' 30 (ws_start 0 sample_upgraded) (((([] @ [AStart]) @ [BConnect ''H'']) @ [BStart]) @ [AReady]) w4"
proof -
  have "ws_step 0 ''S'' 30 w1 (BConnect ''H'') w2"
    unfolding w2_def by (rule b_connect [OF _ w2_take]) (simp_all add: w1_simps sample_upgraded_simps)
  note c = this
  have s: "ws_step 0 ''S'' 30 w2 BStart w3" unfolding w3_def by (rule b_start) (simp add: w2_simps)
  have r: "ws_step 0 ''S'' 30 w3 AReady w4" unfolding w4_def by (rule a_ready) (simp_all add: w3_simps)
  show ?thesis by (rule ws_cons [OF ws_cons [OF ws_cons [OF sample_run1 c] s] r])
qed

lemma sample_run5:
  "ws_run 0 ''S'' 30 (ws_start 0 sample_upgraded)
     ((((([] @ [AStart]) @ [BConnect ''H'']) @ [BStart]) @ [AReady]) @ [ARelay (Frame (Text ''hi'')) True]) w5"
  unfolding w5_def by (rule ws_cons [OF sample_run4], rule a_relay) (simp add: w4_simps)

lemma sample_run6:
  "ws_run 0 ''S'' 30 (ws_start 0 sample_upgraded)
     (((((([] @ [AStart]) @ [BConnect ''H'']) @ [BStart]) @ [AReady]) @ [ARelay (Frame (Text ''hi'')) True]) @
       [BRelay StreamEnd True]) w6"
  unfolding w6_def by (rule ws_cons [OF sample_run5], rule b_relay) (simp add: w5_simps)

theorem relay_in_order_witness: "data_of (out_b w5) @ a_to_b (chan 0 w5) = [Text ''hi'']"
  using relay_in_order [OF sample_run5 sample_fresh_session] by (simp add: w5_simps)

theorem relay_drains_witness:
  "\<exists>es c. ws_run 0 ''S'' 30 (ws_start 0 sample_upgraded) es c \<and> data_of (out_b c) = [Text ''hi'']"
  using relay_drains [OF sample_run5 sample_fresh_session] by (auto simp: w5_simps)

theorem relay_peer_left_witness: "cre w7 = CRelay \<and> out_b w7 = []"
proof -
  have "ws_run 0 ''S'' 30 w6 ([] @ [ARelay (Frame (Text ''you'')) True]) w7"
    unfolding w7_def by (rule ws_cons [OF ws_nil], rule a_relay) (simp add: w6_simps)
  then show ?thesis using relay_peer_left [OF sample_run6 sample_fresh_session, of _ w7] by (simp add: w6_simps)
qed

theorem relay_wait_ends_witness:
  "\<exists>c'. ws_step 0 ''S'' 30 (w1\<lparr>srv := (srv w1)\<lparr>mono_now := secs 31\<rparr>\<rparr>) ATimeout c' \<and> cre c' = CEnd"
proof -
  let ?s = "(srv w1)\<lparr>mono_now := secs 31\<rparr>"
  have now: "mono_now (srv w1) = 0"
    by (simp add: w1_def creator_start_def ws_start_def sample_upgraded_simps new_channels_def)
  have "ws_step 0 ''S'' 30 w1 Others (w1\<lparr>srv := ?s\<rparr>)" by (rule others) (simp_all add: now)
  then have "ws_run 0 ''S'' 30 (ws_start 0 sample_upgraded) (([] @ [AStart]) @ [Others]) (w1\<lparr>srv := ?s\<rparr>)"
    by (rule ws_cons [OF sample_run1])
  from relay_wait_ends [OF this sample_fresh_session, of "secs 30" "[]"] show ?thesis
    by (auto simp: w1_simps secs_def)
qed

theorem relay_leaves_table_witness: "map_of (relay_pending (srv w5)) ''S'' = None"
  using relay_leaves_table [OF sample_run5 sample_fresh_session] by (simp add: w5_simps)

theorem relay_pong_ends_witness: "cre (creator_relay 0 (Frame (Pong [])) True w5) = CEnd"
proof -
  have "ws_step 0 ''S'' 30 w5 (ARelay (Frame (Pong [])) True) (creator_relay 0 (Frame (Pong [])) True w5)"
    by (rule a_relay) (simp add: w5_simps)
  moreover have "ws_step 0 ''S'' 30 w1 (AWait (Frame (Pong [])) True) (creator_wait ''S'' (secs 30) [] (Frame (Pong [])) True w1)"
    by (rule a_wait) (simp add: w1_simps)
  moreover have "ws_step 0 ''S'' 30 w5 (BRelay (Frame (Pong [])) True) (joiner_relay 0 (Frame (Pong [])) True w5)"
    by (rule b_relay) (simp add: w5_simps)
  ultimately show ?thesis using relay_pong_ends by blast
qed

end
