(* ===== verification/Group.thy ===== *)
theory Group
  imports Relay_Ws
begin

text \<open>
  Group mode (\<open>src/group.rs\<close>): the encryption of the group key for a member, the HTTP handlers, and
  the parts of the WebSocket handler that run between two turns of its \<open>select!\<close> loop. The random
  draws (group key, ephemeral secret, nonce, token) are arguments. The loop itself and the
  interleaving of connections is the theory \<open>Group_Ws\<close>.
\<close>

section \<open>ECIES\<close>

definition hkdf_info :: string where
  "hkdf_info = ''naleys-group-key-v1''"

text \<open>The result is \<open>ephemeral_pub(32) || nonce(12) || ciphertext+tag\<close>.\<close>

definition ecies_encrypt :: "'v ext \<Rightarrow> bytes \<Rightarrow> bytes \<Rightarrow> bytes \<Rightarrow> bytes \<Rightarrow> string + bytes" where
  "ecies_encrypt E secret nonce recipient plaintext =
     (case hkdf_expand E (dh_shared E secret recipient) hkdf_info 32 of
        Inl e \<Rightarrow> Inl (''hkdf expand: '' @ e)
      | Inr key \<Rightarrow>
          (case aes_encrypt E key nonce plaintext of
             Inl e \<Rightarrow> Inl (''aes encrypt: '' @ e)
           | Inr ciphertext \<Rightarrow> Inr (dh_public E secret @ nonce @ ciphertext)))"

section \<open>The group key and the members\<close>

definition get_or_create_group_key :: "'v ext \<Rightarrow> bytes \<Rightarrow> bytes handler" where
  "get_or_create_group_key E fresh =
     map_db_err (\<lambda>e. Internal (sqlx_text E e))
       (pbind (sql (\<lambda>s. select_config ''group_key'')) (\<lambda>row.
        case row of
          Some b64 \<Rightarrow>
            (case b64_decode E b64 of
               None \<Rightarrow> fail_with (Internal (b64_error E b64))
             | Some key \<Rightarrow> pure key)
        | None \<Rightarrow>
            pbind (sql (\<lambda>s. insert_config ''group_key'' (b64_encode E fresh))) (\<lambda>_.
            pure fresh)))"

definition get_member_count :: "nat handler" where
  "get_member_count = unwrap_or 0 (sql (\<lambda>s. count_members))"

definition broadcast :: "string \<Rightarrow> unit handler" where
  "broadcast msg = atomic (\<lambda>s. (Inr (), s\<lparr>queues :=
     (\<lambda>q. if q \<in> snd ` set (group_conns s) then queues s q @ [msg] else queues s q)\<rparr>))"

section \<open>HTTP\<close>

definition group_info :: "response handler" where
  "group_info =
     pbind get_member_count (\<lambda>total.
     pbind (reads (\<lambda>s. length (group_conns s))) (\<lambda>online.
     reads (\<lambda>s. let g = cfg_group (config s) in
       json_response 200
         [(''name'', JStr (grp_name g)), (''description'', JStr (grp_description g)),
          (''mode'', JStr (if broadcast_only g then ''channel'' else ''group'')),
          (''invite_only'', JBool (invite_only g)), (''broadcast_only'', JBool (broadcast_only g)),
          (''members_total'', JInt (int total)), (''members_online'', JInt (int online))])))"

record join_req =
  jr_username :: string
  jr_pubkey :: string

definition check_members :: "response option handler" where
  "check_members =
     pbind (reads (\<lambda>s. max_members (cfg_group (config s)))) (\<lambda>limit.
     if 0 < limit
     then pbind get_member_count (\<lambda>cnt.
          pure (if unat limit \<le> cnt then Some (json_response 403 [(''error'', JStr ''group_full'')]) else None))
     else pure None)"

definition member_key :: "'v ext \<Rightarrow> join_req \<Rightarrow> bytes handler" where
  "member_key E rq =
     (case b64_decode E (jr_pubkey rq) of
        None \<Rightarrow> fail_with (BadRequest ''invalid pubkey'')
      | Some key \<Rightarrow>
          pbind (require (length key = 32) (BadRequest ''pubkey must be 32 bytes'')) (\<lambda>_.
          pure key))"

definition encrypt_group_key :: "'v ext \<Rightarrow> bytes \<Rightarrow> bytes \<Rightarrow> bytes \<Rightarrow> bytes \<Rightarrow> bytes handler" where
  "encrypt_group_key E secret nonce key group_key =
     (case ecies_encrypt E secret nonce key group_key of Inl e \<Rightarrow> fail_with (Internal e) | Inr c \<Rightarrow> pure c)"

definition role_for :: "nat \<Rightarrow> string" where
  "role_for cnt = (if cnt = 0 then ''owner'' else ''member'')"

definition join_frame :: "'v ext \<Rightarrow> string \<Rightarrow> string \<Rightarrow> string" where
  "join_frame E name role =
     json_print E (JObj [(''type'', JStr ''join''), (''username'', JStr name), (''role'', JStr role)])"

definition leave_frame :: "'v ext \<Rightarrow> string \<Rightarrow> string" where
  "leave_frame E name = json_print E (JObj [(''type'', JStr ''leave''), (''username'', JStr name)])"

definition joined_response :: "'v ext \<Rightarrow> string \<Rightarrow> bytes \<Rightarrow> string \<Rightarrow> response" where
  "joined_response E token enc role = json_response 200
     [(''token'', JStr token), (''group_key_enc'', JStr (b64_encode E enc)), (''role'', JStr role)]"

definition group_join :: "'v ext \<Rightarrow> bytes \<Rightarrow> bytes \<Rightarrow> bytes \<Rightarrow> bytes \<Rightarrow> join_req \<Rightarrow> response handler" where
  "group_join E fresh secret nonce rnd rq =
     pbind check_members (\<lambda>full. unless_response full (
     pbind (member_key E rq) (\<lambda>key.
     pbind (get_or_create_group_key E fresh) (\<lambda>group_key.
     pbind (encrypt_group_key E secret nonce key group_key) (\<lambda>enc.
     let token = generate_token E rnd in
     pbind get_member_count (\<lambda>cnt.
     let role = role_for cnt in
     pbind (sql (\<lambda>s. upsert_member (jr_username rq) (jr_pubkey rq) (hash_token E token) role (sql_now E s))) (\<lambda>_.
     pbind (broadcast (join_frame E (jr_username rq) role)) (\<lambda>_.
     pure (joined_response E token enc role)))))))))"

definition group_leave :: "'v ext \<Rightarrow> headers \<Rightarrow> response handler" where
  "group_leave E hs =
     pbind (resolve_member E hs) (\<lambda>m.
     pbind (sql (\<lambda>s. delete_member (fst m))) (\<lambda>_.
     pbind (broadcast (leave_frame E (fst m))) (\<lambda>_.
     pure no_content)))"

definition member_json :: "(string, nat) hmap \<Rightarrow> string \<times> string \<times> string \<Rightarrow> json" where
  "member_json online m =
     (case m of (u, role, since) \<Rightarrow>
        JObj [(''username'', JStr u), (''role'', JStr role), (''online'', JBool (map_of online u \<noteq> None)),
              (''joined_at'', JStr since)])"

definition group_members :: "'v ext \<Rightarrow> headers \<Rightarrow> response handler" where
  "group_members E hs =
     pbind (resolve_member E hs) (\<lambda>_.
     pbind (sql (\<lambda>s. list_members)) (\<lambda>rows.
     pbind (reads group_conns) (\<lambda>online.
     pure (json_response 200 [(''members'', JArr (map (member_json online) rows))]))))"

definition message_json :: "string \<times> string \<times> int \<Rightarrow> json" where
  "message_json m =
     (case m of (sender, data, ts) \<Rightarrow> JObj [(''sender'', JStr sender), (''data'', JStr data), (''ts'', JInt ts)])"

definition group_history :: "'v ext \<Rightarrow> headers \<Rightarrow> response handler" where
  "group_history E hs =
     pbind (resolve_member E hs) (\<lambda>_.
     pbind (reads (\<lambda>s. unat (history_limit (cfg_group (config s))))) (\<lambda>limit.
     pbind (sql (\<lambda>s. select_history limit)) (\<lambda>rows.
     pure (json_response 200 [(''messages'', JArr (map message_json (rev rows)))]))))"

definition group_ws :: "'v ext \<Rightarrow> string option \<Rightarrow> response handler" where
  "group_ws E token =
     (case token of
        None \<Rightarrow> pure (text_response 400 ''missing token'')
      | Some tok \<Rightarrow>
          pbind (unwrap_or None (sql (\<lambda>s. select_member (hash_token E tok)))) (\<lambda>row.
          case row of
            None \<Rightarrow> pure (text_response 401 ''invalid token'')
          | Some (username, role) \<Rightarrow> on_upgrade (GroupWs username role)))"

section \<open>Inside the WebSocket handler\<close>

text \<open>Before the loop: register the connection; fetch the history, which is sent if so configured.\<close>

definition connect :: "string \<Rightarrow> nat handler" where
  "connect username = atomic (\<lambda>s.
     (Inr (next_queue s), s\<lparr>queues := (queues s)(next_queue s := []), next_queue := Suc (next_queue s),
        group_conns := AList.update username (next_queue s) (group_conns s)\<rparr>))"

definition history_frames :: "'v ext \<Rightarrow> ws_msg list handler" where
  "history_frames E =
     pbind (reads (\<lambda>s. cfg_group (config s))) (\<lambda>g.
     pbind (unwrap_or [] (sql (\<lambda>s. select_history (unat (history_limit g))))) (\<lambda>history.
     pure (if grp_history g
           then [Text (json_print E (JObj [(''type'', JStr ''history''),
                   (''messages'', JArr (map message_json (rev history)))]))] else [])))"

definition message_frame :: "'v ext \<Rightarrow> string \<Rightarrow> string \<Rightarrow> int \<Rightarrow> string" where
  "message_frame E sender data ts = json_print E (JObj
     [(''type'', JStr ''msg''), (''sender'', JStr sender), (''data'', JStr data), (''ts'', JInt ts)])"

definition forbidden_frame :: "'v ext \<Rightarrow> string" where
  "forbidden_frame E = json_print E (JObj [(''type'', JStr ''error''), (''code'', JStr ''forbidden''),
     (''detail'', JStr ''only admins can post in a channel'')])"

definition post_message :: "'v ext \<Rightarrow> nat \<Rightarrow> string \<Rightarrow> string \<Rightarrow> unit handler" where
  "post_message E limit username data =
     pbind (reads (\<lambda>s. int (utc_now s div 1000000000))) (\<lambda>ts.
     pbind (unwrap_or () (sql (\<lambda>s. insert_message username data ts))) (\<lambda>_.
     pbind (unwrap_or () (sql (\<lambda>s. prune_messages limit))) (\<lambda>_.
     broadcast (message_frame E username data ts))))"

text \<open>A text frame of a member; the result is what its own socket is sent.\<close>

definition group_text :: "'v ext \<Rightarrow> string \<Rightarrow> string \<Rightarrow> string \<Rightarrow> ws_msg list handler" where
  "group_text E username role text =
     (case json_parse E text of
        None \<Rightarrow> pure []
      | Some v \<Rightarrow>
          if as_str (json_index v ''type'') = Some ''msg''
          then pbind (reads (\<lambda>s. cfg_group (config s))) (\<lambda>g.
               if broadcast_only g \<and> role \<noteq> ''owner'' \<and> role \<noteq> ''admin'' then pure [Text (forbidden_frame E)]
               else pbind (post_message E (unat (history_limit g)) username
                      (case as_str (json_index v ''data'') of None \<Rightarrow> [] | Some d \<Rightarrow> d)) (\<lambda>_.
                    pure []))
          else pure [])"

text \<open>After the loop: the entry under the user's name goes, and the others are told (\<open>leave_frame\<close>).\<close>

definition disconnect :: "string \<Rightarrow> unit handler" where
  "disconnect username = atomic (\<lambda>s. (Inr (), s\<lparr>group_conns := AList.delete username (group_conns s)\<rparr>))"

section \<open>Every handler keeps the schema\<close>

lemma broadcast_pool [safe_rules]: "safe pool_ok (broadcast m)"
  unfolding broadcast_def by (rule safe_atomic) simp

lemma on_upgrade_pool [safe_rules]: "safe pool_ok (on_upgrade t)"
  unfolding on_upgrade_def by (rule safe_atomic) simp

lemma connect_pool [safe_rules]: "safe pool_ok (connect u)"
  unfolding connect_def by (rule safe_atomic) simp

lemma get_member_count_pool [safe_rules]: "safe pool_ok get_member_count"
  unfolding get_member_count_def by (intro safe_rules db_rules)

lemma group_info_safe [safe_rules]: "safe pool_ok group_info"
  unfolding group_info_def by (intro safe_rules)

lemma group_join_safe [safe_rules]: "safe pool_ok (group_join E fresh secret nonce rnd rq)"
  unfolding group_join_def check_members_def member_key_def get_or_create_group_key_def encrypt_group_key_def Let_def
  by (intro safe_rules db_rules)

lemma group_leave_safe [safe_rules]: "safe pool_ok (group_leave E hs)"
  unfolding group_leave_def by (intro safe_rules db_rules)

lemma group_members_safe [safe_rules]: "safe pool_ok (group_members E hs)"
  unfolding group_members_def by (intro safe_rules db_rules)

lemma group_history_safe [safe_rules]: "safe pool_ok (group_history E hs)"
  unfolding group_history_def by (intro safe_rules db_rules)

lemma group_ws_safe [safe_rules]: "safe pool_ok (group_ws E token)"
  unfolding group_ws_def by (intro safe_rules db_rules)

lemma post_message_safe [safe_rules]: "safe pool_ok (post_message E n u d)"
  unfolding post_message_def by (intro safe_rules db_rules)

lemma history_frames_safe [safe_rules]: "safe pool_ok (history_frames E)"
  unfolding history_frames_def by (intro safe_rules db_rules)

lemma group_text_safe [safe_rules]: "safe pool_ok (group_text E u r t)"
  unfolding group_text_def Let_def by (intro safe_rules)

lemma disconnect_safe [safe_rules]: "safe pool_ok (disconnect u)"
  unfolding disconnect_def by (rule safe_atomic) simp

lemma init_session_pool [safe_rules]: "safe pool_ok (init_session sid r)"
  unfolding init_session_def by (rule safe_atomic) simp

lemma relay_create_safe [safe_rules]: "safe pool_ok (relay_create E u a b hs)"
  unfolding relay_create_def check_sessions_def open_session_def Let_def
  by (intro safe_rules db_rules)

lemma relay_join_safe [safe_rules]: "safe pool_ok (relay_join E hs sid)"
  unfolding relay_join_def by (intro safe_rules db_rules)

lemma relay_ws_safe [safe_rules]: "safe pool_ok (relay_ws E sid token)"
  unfolding relay_ws_def Let_def new_arc_def drop_init_def put_pending_def take_pending_def
  by (intro safe_rules safe_atomic) (auto split: option.split)

lemma cleanup_safe [safe_rules]: "safe pool_ok cleanup_pass"
  unfolding cleanup_pass_def retain_init_def retain_pending_def
  by (intro safe_rules safe_atomic) simp_all

end
