(* ===== verification/Group_Facts.thy ===== *)
theory Group_Facts
  imports Group Samples
begin

text \<open>
  What the handlers of group mode do: the group key reaches every member, a join under a stored name
  takes that member over, who becomes an owner, what the message log keeps, and leaving. The last
  section evaluates the theorems on a sample group.
\<close>

section \<open>The group key\<close>

text \<open>
  Documented behaviour: Diffie-Hellman agreement, and a decryption function that inverts the
  authenticated encryption. The reference decryptor follows the layout in the comment of
  \<open>ecies_encrypt\<close>.
\<close>

definition dh_agrees :: "'v ext \<Rightarrow> bool" where
  "dh_agrees E \<longleftrightarrow> (\<forall>a b. dh_shared E a (dh_public E b) = dh_shared E b (dh_public E a))"

definition aead_ok :: "'v ext \<Rightarrow> (bytes \<Rightarrow> bytes \<Rightarrow> bytes \<Rightarrow> bytes option) \<Rightarrow> bool" where
  "aead_ok E dec \<longleftrightarrow> (\<forall>k n p c. aes_encrypt E k n p = Inr c \<longrightarrow> dec k n c = Some p)"

definition ecies_decrypt ::
  "'v ext \<Rightarrow> (bytes \<Rightarrow> bytes \<Rightarrow> bytes \<Rightarrow> bytes option) \<Rightarrow> bytes \<Rightarrow> bytes \<Rightarrow> bytes option" where
  "ecies_decrypt E dec secret box =
     (case hkdf_expand E (dh_shared E secret (take 32 box)) hkdf_info 32 of
        Inl e \<Rightarrow> None
      | Inr key \<Rightarrow> dec key (take 12 (drop 32 box)) (drop 44 box))"

lemma ecies_open:
  assumes "dh_agrees E" "aead_ok E dec" "length (dh_public E secret) = 32" "length nonce = 12"
    and "ecies_encrypt E secret nonce (dh_public E d) plaintext = Inr box"
  shows "ecies_decrypt E dec d box = Some plaintext"
proof -
  obtain key ct where key: "hkdf_expand E (dh_shared E secret (dh_public E d)) hkdf_info 32 = Inr key"
    and ct: "aes_encrypt E key nonce plaintext = Inr ct" and box: "box = dh_public E secret @ nonce @ ct"
    using assms(5) by (auto simp: ecies_encrypt_def split: sum.splits)
  have parts: "take 32 box = dh_public E secret" "take 12 (drop 32 box) = nonce" "drop 44 box = ct"
    using assms(3,4) by (simp_all add: box)
  show ?thesis using assms(1,2) key ct unfolding ecies_decrypt_def parts by (simp add: dh_agrees_def aead_ok_def)
qed

text \<open>What \<open>ecies_encrypt\<close> makes for a public key opens with the matching secret key, and has the layout \<open>ephemeral_pub(32) || nonce(12) || ciphertext\<close>.\<close>

theorem ecies_roundtrip:
  assumes "dh_agrees E" "aead_ok E dec" "length (dh_public E secret) = 32" "length nonce = 12"
    and "ecies_encrypt E secret nonce (dh_public E d) plaintext = Inr box"
  shows "ecies_decrypt E dec d box = Some plaintext \<and> take 32 box = dh_public E secret \<and> take 12 (drop 32 box) = nonce"
  using ecies_open [OF assms] assms(3-5) by (auto simp: ecies_encrypt_def split: sum.splits)

lemma run_group_key:
  assumes "faults s = []"
  shows "run (get_or_create_group_key E fresh) s =
    (case map_of (gconfig (pool s)) ''group_key'' of
       Some b64 \<Rightarrow> (case b64_decode E b64 of None \<Rightarrow> Inl (Fail (Internal (b64_error E b64))) | Some key \<Rightarrow> Inr key, s)
     | None \<Rightarrow> (Inr fresh, s\<lparr>pool := (pool s)\<lparr>gconfig := gconfig (pool s) @ [(''group_key'', b64_encode E fresh)]\<rparr>\<rparr>))"
proof (cases "map_of (gconfig (pool s)) ''group_key''")
  case None
  then have "''group_key'' \<notin> fst ` set (gconfig (pool s))" by (simp add: map_of_eq_None_iff)
  with None show ?thesis using assms
    by (simp add: get_or_create_group_key_def run_map_db_err run_pbind run_sql_query select_config_def run_sql_ok
        insert_config_def run_pure)
next
  case (Some b64)
  then show ?thesis using assms
    by (simp add: get_or_create_group_key_def run_map_db_err run_pbind run_sql_query select_config_def run_pure
        run_fail_with split: option.split)
qed

text \<open>The key of a state: what a later call returns.\<close>

definition group_key_of :: "'v ext \<Rightarrow> db \<Rightarrow> bytes option" where
  "group_key_of E d = Option.bind (map_of (gconfig d) ''group_key'') (b64_decode E)"

lemma group_key_kept:
  assumes "faults s = []" "base64_ok E" "run (get_or_create_group_key E fresh) s = (Inr key, s')"
  shows "group_key_of E (pool s') = Some key \<and> faults s' = [] \<and> members (pool s') = members (pool s) \<and>
     queues s' = queues s \<and> group_conns s' = group_conns s"
  using assms by (auto simp: run_group_key group_key_of_def base64_ok_def map_add_def split: option.splits)

lemma group_key_again:
  assumes "faults s = []" "group_key_of E (pool s) = Some key"
  shows "run (get_or_create_group_key E fresh) s = (Inr key, s)"
  using assms by (auto simp: run_group_key group_key_of_def bind_eq_Some_conv)

section \<open>Joining\<close>

definition broadcasted :: "string \<Rightarrow> app_state \<Rightarrow> app_state" where
  "broadcasted msg s = s\<lparr>queues := (\<lambda>q. if q \<in> snd ` set (group_conns s) then queues s q @ [msg] else queues s q)\<rparr>"

lemma run_broadcast: "run (broadcast msg) s = (Inr (), broadcasted msg s)"
  by (simp add: broadcast_def run_atomic broadcasted_def)

lemma broadcasted_simps [simp]:
  "pool (broadcasted m s) = pool s" "faults (broadcasted m s) = faults s" "config (broadcasted m s) = config s"
  "group_conns (broadcasted m s) = group_conns s"
  by (simp_all add: broadcasted_def)

lemma run_member_count: "faults s = [] \<Longrightarrow> run get_member_count s = (Inr (length (members (pool s))), s)"
  by (simp add: get_member_count_def run_unwrap_or count_members_def run_sql_query)

lemma run_check_members:
  "faults s = [] \<Longrightarrow> run check_members s =
     (Inr (if 0 < max_members (cfg_group (config s)) \<and> unat (max_members (cfg_group (config s))) \<le> length (members (pool s))
           then Some (json_response 403 [(''error'', JStr ''group_full'')]) else None), s)"
  by (simp add: check_members_def run_pbind run_reads run_member_count run_pure)

lemma run_member_key:
  "run (member_key E rq) s = (case b64_decode E (jr_pubkey rq) of
      None \<Rightarrow> (Inl (Fail (BadRequest ''invalid pubkey'')), s)
    | Some key \<Rightarrow> (if length key = 32 then Inr key else Inl (Fail (BadRequest ''pubkey must be 32 bytes'')), s))"
  by (simp add: member_key_def run_pbind run_require run_pure run_fail_with split: option.split)

lemma run_encrypt_group_key:
  "run (encrypt_group_key E secret nonce key gk) s =
     (case ecies_encrypt E secret nonce key gk of Inl e \<Rightarrow> (Inl (Fail (Internal e)), s) | Inr c \<Rightarrow> (Inr c, s))"
  by (simp add: encrypt_group_key_def run_pure run_fail_with split: sum.split)

definition admitted_to :: "app_state \<Rightarrow> bool" where
  "admitted_to s \<longleftrightarrow> max_members (cfg_group (config s)) = 0 \<or>
     length (members (pool s)) < unat (max_members (cfg_group (config s)))"

lemma run_group_join:
  assumes "faults s = []" "admitted_to s" "b64_decode E (jr_pubkey rq) = Some pk" "length pk = 32"
    and key: "run (get_or_create_group_key E fresh) s = (Inr gk, s1)"
    and "ecies_encrypt E secret nonce pk gk = Inr enc"
    and "\<forall>m \<in> set (members (pool s)). m_hash m = hash_token E (generate_token E rnd) \<longrightarrow> m_name m = jr_username rq"
    and "base64_ok E"
  shows "run (group_join E fresh secret nonce rnd rq) s =
    (let role = role_for (length (members (pool s))) in
     (Inr (joined_response E (generate_token E rnd) enc role),
      broadcasted (join_frame E (jr_username rq) role)
        (s1\<lparr>pool := snd (upsert_member (jr_username rq) (jr_pubkey rq) (hash_token E (generate_token E rnd)) role
            (sql_now E s1) (pool s1))\<rparr>)))"
proof -
  have s1: "faults s1 = []" "members (pool s1) = members (pool s)"
    using group_key_kept [OF assms(1,8) key] by simp_all
  have "run check_members s = (Inr None, s)"
    using assms(1,2) by (auto simp: run_check_members admitted_to_def)
  moreover have "fst (upsert_member (jr_username rq) (jr_pubkey rq) (hash_token E (generate_token E rnd)) role
      now (pool s1)) = Inr ()" for role now
    using assms(7) s1(2) by (auto simp: upsert_member_def Let_def)
  ultimately show ?thesis
    using assms(3,4,6) s1
    by (simp add: group_join_def Let_def run_pbind run_unless_response run_member_key key run_encrypt_group_key
        run_member_count run_sql_ok run_broadcast run_pure)
qed

text \<open>The members after a join.\<close>

lemma members_upsert:
  assumes "hash \<notin> m_hash ` set (members d)"
  shows "members (snd (upsert_member name key hash role now d)) =
    (if name \<in> m_name ` set (members d)
     then map (\<lambda>m. if m_name m = name then m\<lparr>m_pubkey := key, m_hash := hash\<rparr> else m) (members d)
     else members d @ [\<lparr>m_id = Suc (member_seq d), m_name = name, m_pubkey = key, m_hash = hash, m_role = role,
            m_joined = now\<rparr>])"
proof -
  have no: "\<not> (\<exists>m \<in> set (members d). m_hash m = hash \<and> m_name m \<noteq> name)" using assms by (metis imageI)
  show ?thesis unfolding upsert_member_def Let_def if_not_P [OF no] by simp
qed

lemma members_join:
  assumes "faults s = []" "admitted_to s" "b64_decode E (jr_pubkey rq) = Some pk" "length pk = 32"
    and "run (get_or_create_group_key E fresh) s = (Inr gk, s1)" "ecies_encrypt E secret nonce pk gk = Inr enc"
    and "hash_token E (generate_token E rnd) \<notin> m_hash ` set (members (pool s))" "base64_ok E"
    and "run (group_join E fresh secret nonce rnd rq) s = (r, s')"
  shows "fst (r, s') = Inr (joined_response E (generate_token E rnd) enc (role_for (length (members (pool s)))))"
    and "\<exists>now n. members (pool s') = (if jr_username rq \<in> m_name ` set (members (pool s))
       then map (\<lambda>m. if m_name m = jr_username rq
              then m\<lparr>m_pubkey := jr_pubkey rq, m_hash := hash_token E (generate_token E rnd)\<rparr> else m) (members (pool s))
       else members (pool s) @ [\<lparr>m_id = n, m_name = jr_username rq, m_pubkey = jr_pubkey rq,
              m_hash = hash_token E (generate_token E rnd), m_role = role_for (length (members (pool s))), m_joined = now\<rparr>])"
    and "faults s' = []"
proof -
  have own: "\<forall>m \<in> set (members (pool s)). m_hash m = hash_token E (generate_token E rnd) \<longrightarrow> m_name m = jr_username rq"
    using assms(7) by (metis imageI)
  note j = run_group_join [OF assms(1-6) own assms(8), unfolded assms(9)]
  have s1: "members (pool s1) = members (pool s)" "faults s1 = []" using group_key_kept [OF assms(1,8,5)] by simp_all
  show "fst (r, s') = Inr (joined_response E (generate_token E rnd) enc (role_for (length (members (pool s)))))"
    using j by (simp add: Let_def)
  show "\<exists>now n. members (pool s') = (if jr_username rq \<in> m_name ` set (members (pool s))
       then map (\<lambda>m. if m_name m = jr_username rq
              then m\<lparr>m_pubkey := jr_pubkey rq, m_hash := hash_token E (generate_token E rnd)\<rparr> else m) (members (pool s))
       else members (pool s) @ [\<lparr>m_id = n, m_name = jr_username rq, m_pubkey = jr_pubkey rq,
              m_hash = hash_token E (generate_token E rnd), m_role = role_for (length (members (pool s))), m_joined = now\<rparr>])"
    using j members_upsert [of "hash_token E (generate_token E rnd)" "pool s1" "jr_username rq" "jr_pubkey rq"
        "role_for (length (members (pool s)))" "sql_now E s1"] assms(7) s1
    by (auto simp: Let_def)
  show "faults s' = []" using j s1 by (simp add: Let_def)
qed

text \<open>C37. A join under the name of a member replaces their key and token: the new token authenticates as that member with their role (owner included), the old one is refused. The request needs no proof of identity.\<close>

theorem group_join_takeover:
  assumes "faults s = []" "db_ok (pool s)" "admitted_to s" "b64_decode E (jr_pubkey rq) = Some pk" "length pk = 32"
    and "run (get_or_create_group_key E fresh) s = (Inr gk, s1)" "ecies_encrypt E secret nonce pk gk = Inr enc"
    and "hash_token E (generate_token E rnd) \<notin> m_hash ` set (members (pool s))" "base64_ok E" "hex_ok E"
    and "m \<in> set (members (pool s))" "m_name m = jr_username rq"
    and "extract_bearer hs = Inr old" "hash_token E old = m_hash m"
  shows "let s' = snd (run (group_join E fresh secret nonce rnd rq) s) in
     run (resolve_member E (bearer (generate_token E rnd))) s' = (Inr (m_name m, m_role m), s') \<and>
     run (resolve_member E hs) s' = (Inl (Fail Unauthorized), s')"
proof -
  obtain r s' where run: "run (group_join E fresh secret nonce rnd rq) s = (r, s')" by fastforce
  note after = members_join [OF assms(1,3-9) run]
  let ?h = "hash_token E (generate_token E rnd)"
  let ?f = "\<lambda>x. if m_name x = jr_username rq then x\<lparr>m_pubkey := jr_pubkey rq, m_hash := ?h\<rparr> else x"
  have "jr_username rq \<in> m_name ` set (members (pool s))" using assms(11,12) by (metis imageI)
  then have ms: "members (pool s') = map ?f (members (pool s))" using after(2) by auto
  have ok: "db_ok (pool s')" using safe_run [OF group_join_safe assms(2), of E fresh secret nonce rnd rq] run by simp
  have "?f m \<in> set (members (pool s'))" using assms(11) unfolding ms by simp
  then have "List.find (\<lambda>x. m_hash x = ?h) (members (pool s')) = Some (?f m)"
    using member_hash.find_iff [OF ok, of ?h "?f m"] assms(12) by simp
  then have new: "run (resolve_member E (bearer (generate_token E rnd))) s' = (Inr (m_name m, m_role m), s')"
    using after(3) extract_bearer_token [OF assms(10), of rnd] assms(12) by (simp add: run_resolve_member)
  have "m_hash x \<noteq> m_hash m" if x: "x \<in> set (members (pool s'))" for x
  proof -
    obtain y where y: "y \<in> set (members (pool s))" "x = ?f y" using x unfolding ms set_map by blast
    show ?thesis
    proof (cases "m_name y = jr_username rq")
      case True
      then show ?thesis using y(2) assms(8,11) by auto
    next
      case False
      then show ?thesis using y member_hash.same_key [OF assms(2) y(1) assms(11)] assms(12) by auto
    qed
  qed
  then have "List.find (\<lambda>x. m_hash x = m_hash m) (members (pool s')) = None" by (auto simp: find_None_iff)
  then have "run (resolve_member E hs) s' = (Inl (Fail Unauthorized), s')"
    using after(3) assms(13,14) by (simp add: run_resolve_member)
  with new run show ?thesis by (simp add: Let_def)
qed


section \<open>Owners\<close>

definition owners :: "db \<Rightarrow> nat" where
  "owners d = length (filter (\<lambda>m. m_role m = ''owner'') (members d))"

lemma owners_upsert:
  assumes "owners d \<le> 1" "role = role_for (length (members d))"
  shows "owners (snd (upsert_member name key hash role now d)) \<le> 1"
proof -
  have "length (filter (\<lambda>m. m_role m = ''owner'') (map (\<lambda>m. if m_name m = name then m\<lparr>m_pubkey := key, m_hash := hash\<rparr> else m) ms))
      = length (filter (\<lambda>m. m_role m = ''owner'') ms)" for ms :: "member_row list"
    by (induction ms) auto
  then show ?thesis using assms by (auto simp: owners_def upsert_member_def Let_def role_for_def)
qed

lemma owners_group_key:
  "faults s = [] \<Longrightarrow> members (pool (snd (run (get_or_create_group_key E fresh) s))) = members (pool s) \<and>
     faults (snd (run (get_or_create_group_key E fresh) s)) = []"
  by (simp add: run_group_key split: option.split)

text \<open>C20. With a working engine, requests that run one after another never make a second owner.\<close>

theorem one_owner_kept:
  assumes "faults s = []" "owners (pool s) \<le> 1"
  shows "owners (pool (snd (run (group_join E fresh secret nonce rnd rq) s))) \<le> 1 \<and>
    owners (pool (snd (run (group_leave E hs) s))) \<le> 1"
proof
  obtain gk s1 where gk: "run (get_or_create_group_key E fresh) s = (gk, s1)" by fastforce
  then have s1: "members (pool s1) = members (pool s)" "faults s1 = []" using owners_group_key [OF assms(1)] by (metis snd_conv)+
  then have "owners (pool s1) \<le> 1" using assms(2) by (simp add: owners_def)
  then show "owners (pool (snd (run (group_join E fresh secret nonce rnd rq) s))) \<le> 1"
    using assms gk s1 owners_upsert [of "pool s1"]
    by (auto simp: group_join_def Let_def run_pbind run_check_members run_unless_response run_member_key
        run_encrypt_group_key run_member_count run_sql_ok run_broadcast run_pure split: prod.split sum.split option.split)
  show "owners (pool (snd (run (group_leave E hs) s))) \<le> 1"
  proof (cases "run (resolve_member E hs) s")
    case (Pair r s')
    then have s: "s' = s" using member_auth.working [OF assms(1), of E hs] by simp
    have "length (filter (\<lambda>m. P m \<and> m_role m = ''owner'') ms) \<le> length (filter (\<lambda>m. m_role m = ''owner'') ms)"
      for P and ms :: "member_row list" by (induction ms) auto
    note le = this
    show ?thesis using s assms Pair
      by (cases r) (auto simp: group_leave_def run_pbind run_sql_ok delete_member_def run_broadcast run_pure owners_def
          intro: order_trans [OF le])
  qed
qed

text \<open>\<open>get_member_count\<close> turns an error of the engine into 0, and 0 members make an owner.\<close>

text \<open>When the count of members fails, \<open>get_member_count\<close> answers 0 and the newcomer becomes an owner of a group that has members.\<close>

theorem owner_on_engine_error:
  assumes "faults s = [False, True]" "max_members (cfg_group (config s)) = 0"
    and "b64_decode E (jr_pubkey rq) = Some pk" "length pk = 32"
    and "group_key_of E (pool s) = Some gk" "ecies_encrypt E secret nonce pk gk = Inr enc"
    and "hash_token E (generate_token E rnd) \<notin> m_hash ` set (members (pool s))"
    and "jr_username rq \<notin> m_name ` set (members (pool s))"
  shows "fst (run (group_join E fresh secret nonce rnd rq) s) = Inr (joined_response E (generate_token E rnd) enc ''owner'') \<and>
    owners (pool (snd (run (group_join E fresh secret nonce rnd rq) s))) = Suc (owners (pool s))"
proof -
  have full: "run check_members s = (Inr None, s)"
    using assms(2) by (simp add: check_members_def run_pbind run_reads run_pure)
  let ?s1 = "s\<lparr>faults := [True]\<rparr>" let ?s2 = "s\<lparr>faults := []\<rparr>"
  have key: "run (get_or_create_group_key E fresh) s = (Inr gk, ?s1)"
    using assms(1,5)
    by (auto simp: get_or_create_group_key_def run_map_db_err run_pbind run_query select_config_def group_key_of_def
        bind_eq_Some_conv run_pure)
  have cnt: "run get_member_count ?s1 = (Inr 0, ?s2)"
    by (simp add: get_member_count_def run_unwrap_or count_members_def run_query)
  show ?thesis
    using assms(3,4,6,7,8)
    by (auto simp: group_join_def Let_def run_pbind full run_unless_response run_member_key key run_encrypt_group_key
        cnt run_sql_ok upsert_member_def run_broadcast run_pure role_for_def owners_def image_iff)
qed


text \<open>A join can be stopped between the count that decides the role and the insertion.\<close>

lemma join_counted:
  assumes "faults s = []" "admitted_to s" "b64_decode E (jr_pubkey rq) = Some pk" "length pk = 32"
    and "group_key_of E (pool s) = Some gk" "ecies_encrypt E secret nonce pk gk = Inr enc" "i < length ps"
    and "(sched env req)\<^sup>*\<^sup>* (s, ps[i :=
       pbind (sql (\<lambda>s. upsert_member (jr_username rq) (jr_pubkey rq) (hash_token E (generate_token E rnd))
          (role_for (length (members (pool s0)))) (sql_now E s))) (\<lambda>_.
       pbind (broadcast (join_frame E (jr_username rq) (role_for (length (members (pool s0)))))) (\<lambda>_.
       pure (joined_response E (generate_token E rnd) enc (role_for (length (members (pool s0)))))))]) c"
    and "members (pool s0) = members (pool s)"
  shows "(sched env req)\<^sup>*\<^sup>* (s, ps[i := group_join E fresh secret nonce rnd rq]) c"
proof -
  have full: "run check_members s = (Inr None, s)"
    using assms(1,2) by (auto simp: run_check_members admitted_to_def)
  have key: "run (member_key E rq) s = (Inr pk, s)" using assms(3,4) by (simp add: run_member_key)
  have gk: "run (get_or_create_group_key E fresh) s = (Inr gk, s)" by (rule group_key_again [OF assms(1,5)])
  have enc: "run (encrypt_group_key E secret nonce pk gk) s = (Inr enc, s)"
    using assms(6) by (simp add: run_encrypt_group_key)
  note cnt = run_member_count [OF assms(1)]
  note stage = sched_stage [OF assms(7)]
  show ?thesis
    unfolding group_join_def Let_def
    by (rule stage [OF full], simp only: unless_response_def option.case)
      (rule stage [OF key], rule stage [OF gk], rule stage [OF enc], rule stage [OF cnt], use assms(8,9) in simp)
qed

lemma join_inserts:
  assumes "faults s = []" "name \<notin> m_name ` set (members (pool s))" "hash \<notin> m_hash ` set (members (pool s))"
  shows "\<exists>s' n now. run (pbind (sql (\<lambda>s. upsert_member name key hash role (sql_now E s))) (\<lambda>_.
       pbind (broadcast frame) (\<lambda>_. pure ok))) s = (Inr ok, s') \<and> faults s' = [] \<and>
     members (pool s') = members (pool s) @ [\<lparr>m_id = n, m_name = name, m_pubkey = key, m_hash = hash,
       m_role = role, m_joined = now\<rparr>]"
proof -
  have no: "\<not> (\<exists>m \<in> set (members (pool s)). m_hash m = hash \<and> m_name m \<noteq> name)" using assms(3) by (metis imageI)
  have "fst (upsert_member name key hash role now (pool s)) = Inr ()" for now
    unfolding upsert_member_def Let_def if_not_P [OF no] by simp
  then show ?thesis
    using members_upsert [OF assms(3), of name key role "sql_now E s"] assms(1,2)
    by (simp add: run_pbind run_sql_ok run_broadcast run_pure)
qed

text \<open>C29. Two first joins whose counts both run before either insertion end with two owners.\<close>

theorem two_owners_race:
  assumes "faults s = []" "members (pool s) = []" "group_key_of E (pool s) = Some gk"
    and "b64_decode E (jr_pubkey rq1) = Some pk1" "length pk1 = 32" "ecies_encrypt E e1 n1 pk1 gk = Inr c1"
    and "b64_decode E (jr_pubkey rq2) = Some pk2" "length pk2 = 32" "ecies_encrypt E e2 n2 pk2 gk = Inr c2"
    and "jr_username rq1 \<noteq> jr_username rq2"
    and "hash_token E (generate_token E r1) \<noteq> hash_token E (generate_token E r2)"
  shows "\<exists>t ps. (sched env req)\<^sup>*\<^sup>* (s, [group_join E f1 e1 n1 r1 rq1, group_join E f2 e2 n2 r2 rq2]) (t, ps) \<and>
     owners (pool t) = 2"
proof -
  let ?tail = "\<lambda>r rq c. pbind (sql (\<lambda>t. upsert_member (jr_username rq) (jr_pubkey rq) (hash_token E (generate_token E r))
          (role_for (length (members (pool s)))) (sql_now E t))) (\<lambda>_.
       pbind (broadcast (join_frame E (jr_username rq) (role_for (length (members (pool s)))))) (\<lambda>_.
       pure (joined_response E (generate_token E r) c (role_for (length (members (pool s)))))))"
  let ?ok = "\<lambda>r c. joined_response E (generate_token E r) c (role_for (length (members (pool s))))"
  have adm: "admitted_to s" using assms(2) by (auto simp: admitted_to_def word_greater_zero_iff unat_gt_0)
  have role: "role_for (length (members (pool s))) = ''owner''" using assms(2) by (simp add: role_for_def)
  have in1: "jr_username rq1 \<notin> m_name ` set (members (pool s))"
    "hash_token E (generate_token E r1) \<notin> m_hash ` set (members (pool s))" using assms(2) by simp_all
  obtain t1 n now where t1: "run (?tail r1 rq1 c1) s = (Inr (?ok r1 c1), t1)" "faults t1 = []"
    "members (pool t1) = members (pool s) @ [\<lparr>m_id = n, m_name = jr_username rq1, m_pubkey = jr_pubkey rq1,
       m_hash = hash_token E (generate_token E r1), m_role = role_for (length (members (pool s))), m_joined = now\<rparr>]"
    using join_inserts [OF assms(1) in1] by fast
  have in2: "jr_username rq2 \<notin> m_name ` set (members (pool t1))"
    "hash_token E (generate_token E r2) \<notin> m_hash ` set (members (pool t1))" using assms(2,10,11) t1(3) by auto
  obtain t2 n' now' where t2: "run (?tail r2 rq2 c2) t1 = (Inr (?ok r2 c2), t2)"
    "members (pool t2) = members (pool t1) @ [\<lparr>m_id = n', m_name = jr_username rq2, m_pubkey = jr_pubkey rq2,
       m_hash = hash_token E (generate_token E r2), m_role = role_for (length (members (pool s))), m_joined = now'\<rparr>]"
    using join_inserts [OF t1(2) in2] by fast
  have "owners (pool t2) = 2" using t1(3) t2(2) role assms(2) by (simp add: owners_def)
  moreover have "(sched env req)\<^sup>*\<^sup>* (s, [?tail r1 rq1 c1, ?tail r2 rq2 c2]) (t2, [pure (?ok r1 c1), pure (?ok r2 c2)])"
    using sched_run [of 0 "[?tail r1 rq1 c1, ?tail r2 rq2 c2]", OF _ _ t1(1), of env req]
      sched_run [of 1 "[pure (?ok r1 c1), ?tail r2 rq2 c2]", OF _ _ t2(1), of env req]
    by simp
  then have "(sched env req)\<^sup>*\<^sup>* (s, [group_join E f1 e1 n1 r1 rq1, group_join E f2 e2 n2 r2 rq2])
      (t2, [pure (?ok r1 c1), pure (?ok r2 c2)])"
    using join_counted [OF assms(1) adm assms(4,5,3,6), of 0 "[?tail r1 rq1 c1, group_join E f2 e2 n2 r2 rq2]" env req r1 s]
      join_counted [OF assms(1) adm assms(7,8,3,9), of 1 "[?tail r1 rq1 c1, ?tail r2 rq2 c2]" env req r2 s]
    by simp
  ultimately show ?thesis by blast
qed

section \<open>Messages\<close>

text \<open>The log as the members see it: sender, data and time, oldest first.\<close>

definition message_log :: "db \<Rightarrow> (string \<times> string \<times> int) list" where
  "message_log d = map (\<lambda>m. (g_sender m, g_data m, g_ts m)) (messages d)"

definition last_n :: "nat \<Rightarrow> 'a list \<Rightarrow> 'a list" where
  "last_n n xs = drop (length xs - n) xs"

lemma newest_sorted: "messages_ok d \<Longrightarrow> newest n d = rev (last_n n (messages d))"
proof -
  assume ok: "messages_ok d"
  then have "sorted (map g_id (messages d))" by (simp add: messages_ok_def strict_sorted_imp_sorted)
  then have "sort_key g_id (messages d) = messages d" by (rule sort_key_id_if_sorted)
  then show ?thesis by (simp add: newest_def last_n_def take_rev)
qed


lemma last_n_map: "map f (last_n n xs) = last_n n (map f xs)"
  by (simp add: last_n_def drop_map)

lemma last_n_all: "length xs \<le> n \<Longrightarrow> last_n n xs = xs"
  by (simp add: last_n_def)

lemma filter_last_n:
  "distinct (map k xs) \<Longrightarrow> filter (\<lambda>x. k x \<in> k ` set (last_n n xs)) xs = last_n n xs"
proof -
  assume d: "distinct (map k xs)"
  let ?i = "length xs - n"
  have "k x \<notin> k ` set (drop ?i xs)" if "x \<in> set (take ?i xs)" for x
  proof -
    have "distinct (map k (take ?i xs) @ map k (drop ?i xs))"
      using d by (metis append_take_drop_id map_append)
    then show ?thesis using that by auto
  qed
  then have "filter (\<lambda>x. k x \<in> k ` set (drop ?i xs)) (take ?i xs) = []" by (simp add: filter_empty_conv)
  moreover have "filter (\<lambda>x. k x \<in> k ` set (drop ?i xs)) (drop ?i xs) = drop ?i xs" by (simp add: filter_id_conv)
  ultimately show ?thesis unfolding last_n_def by (metis append_Nil append_take_drop_id filter_append)
qed

lemma messages_distinct: "messages_ok d \<Longrightarrow> distinct (map g_id (messages d))"
  by (simp add: messages_ok_def strict_sorted_iff)

lemma prune_log: "messages_ok d \<Longrightarrow> message_log (snd (prune_messages n d)) = last_n n (message_log d)"
  by (simp add: message_log_def prune_messages_def newest_sorted filter_last_n messages_distinct last_n_map)

lemma insert_log: "message_log (snd (insert_message u x ts d)) = message_log d @ [(u, x, ts)]"
  by (simp add: message_log_def insert_message_def Let_def)

lemma history_log: "messages_ok d \<Longrightarrow> fst (select_history n d) = Inr (rev (last_n n (message_log d)))"
  by (simp add: select_history_def query_def newest_sorted message_log_def rev_map [symmetric] last_n_map)

definition now_secs :: "app_state \<Rightarrow> int" where
  "now_secs s = int (utc_now s div 1000000000)"

lemma stmt_ok: "fst (insert_message u x ts d) = Inr ()" "fst (prune_messages n d) = Inr ()"
  by (simp_all add: insert_message_def prune_messages_def Let_def)

text \<open>C23. A posted message is appended to the log, the log is cut to the newest \<open>history_limit\<close> messages, and every connection, the sender's included, gets the frame once.\<close>

theorem post_message_logged:
  assumes "faults s = []" "db_ok (pool s)"
  shows "\<exists>s'. run (post_message E n name data) s = (Inr (), s') \<and>
     message_log (pool s') = last_n n (message_log (pool s) @ [(name, data, now_secs s)]) \<and>
     (\<forall>q. queues s' q = (if q \<in> snd ` set (group_conns s)
        then queues s q @ [message_frame E name data (now_secs s)] else queues s q))"
proof -
  let ?d1 = "snd (insert_message name data (now_secs s) (pool s))" let ?d2 = "snd (prune_messages n ?d1)"
  have ok: "messages_ok ?d1" using db_ok_insert_message [OF assms(2)] by (simp add: db_ok_def)
  have "run (post_message E n name data) s = (Inr (), broadcasted (message_frame E name data (now_secs s)) (s\<lparr>pool := ?d2\<rparr>))"
    using assms(1)
    by (simp add: post_message_def run_pbind run_reads run_unwrap_or run_sql_ok run_broadcast now_secs_def stmt_ok)
  then show ?thesis using prune_log [OF ok, of n]
    by (intro exI [of _ "broadcasted (message_frame E name data (now_secs s)) (s\<lparr>pool := ?d2\<rparr>)"])
      (simp add: insert_log broadcasted_def)
qed

text \<open>\<open>GET /group/history\<close> returns the newest \<open>history_limit\<close> messages of the log, oldest first.\<close>

theorem history_answer:
  assumes "faults s = []" "db_ok (pool s)" "fst (run (resolve_member E hs) s) = Inr m"
  shows "run (group_history E hs) s = (Inr (json_response 200 [(''messages'',
     JArr (map message_json (last_n (unat (history_limit (cfg_group (config s)))) (message_log (pool s)))))]), s)"
  using history_log [of "pool s"] assms(2)
  unfolding group_history_def member_auth.accepted [OF assms(1,3)]
  by (simp add: run_pbind run_reads run_sql_ok assms(1) run_pure db_ok_def) (simp add: select_history_def query_def)

text \<open>In a channel a member who is neither owner nor admin changes nothing with a text frame, whatever it says; at most they are told that it is forbidden.\<close>

theorem channel_readers_silent:
  assumes "broadcast_only (cfg_group (config s))" "role \<noteq> ''owner''" "role \<noteq> ''admin''"
  shows "\<exists>frames. run (group_text E name role text) s = (Inr frames, s) \<and> set frames \<subseteq> {Text (forbidden_frame E)}"
  using assms by (auto simp: group_text_def run_pbind run_reads run_pure split: option.split)

text \<open>Leaving removes exactly the member who asked, the token is refused afterwards, and the WebSocket connections stay as they are.\<close>

theorem group_leave_complete:
  assumes "faults s = []" "db_ok (pool s)" "run (resolve_member E hs) s = (Inr (name, role), s)"
  shows "\<exists>s'. run (group_leave E hs) s = (Inr no_content, s') \<and>
     members (pool s') = filter (\<lambda>m. m_name m \<noteq> name) (members (pool s)) \<and>
     run (resolve_member E hs) s' = (Inl (Fail Unauthorized), s') \<and>
     group_conns s' = group_conns s"
proof -
  let ?s' = "broadcasted (leave_frame E name) (s\<lparr>pool := snd (delete_member name (pool s))\<rparr>)"
  have r: "run (group_leave E hs) s = (Inr no_content, ?s')"
    using assms(1,3) by (simp add: group_leave_def run_pbind run_sql_ok run_broadcast run_pure delete_member_def)
  obtain raw m where raw: "extract_bearer hs = Inr raw"
    and m: "m \<in> set (members (pool s))" "m_hash m = hash_token E raw" "m_name m = name"
    using assms(1,3) by (auto simp: run_resolve_member dest!: find_SomeD split: sum.splits option.splits)
  have "m_hash x \<noteq> hash_token E raw" if "x \<in> set (members (pool s))" "m_name x \<noteq> name" for x
    using member_hash.same_key [OF assms(2) that(1) m(1)] that(2) m(2,3) by auto
  then have "List.find (\<lambda>x. m_hash x = hash_token E raw) (filter (\<lambda>m. m_name m \<noteq> name) (members (pool s))) = None"
    by (auto simp: find_None_iff)
  then have "run (resolve_member E hs) ?s' = (Inl (Fail Unauthorized), ?s')"
    using raw assms(1) by (simp add: run_resolve_member delete_member_def)
  with r show ?thesis by (intro exI [of _ ?s']) (simp add: delete_member_def)
qed

section \<open>A sample group\<close>

definition sample_group_key :: bytes where
  "sample_group_key = replicate 32 5"

definition sample_owner :: member_row where
  "sample_owner = \<lparr>m_id = 1, m_name = ''ann'', m_pubkey = sample_key, m_hash = hash_token sample_ext sample_token,
     m_role = ''owner'', m_joined = []\<rparr>"

definition sample_log :: "message_row list" where
  "sample_log = [\<lparr>g_id = 1, g_sender = ''ann'', g_data = ''hi'', g_ts = 0\<rparr>, \<lparr>g_id = 2, g_sender = ''ann'', g_data = ''ho'', g_ts = 1\<rparr>]"

text \<open>A group with a key and no members, and the same with an owner, two messages and a connection.\<close>

definition empty_group :: app_state where
  "empty_group = sample_server\<lparr>pool := empty_db\<lparr>gconfig := [(''group_key'', b64_encode sample_ext sample_group_key)]\<rparr>\<rparr>"

definition sample_group :: app_state where
  "sample_group = sample_server\<lparr>pool := empty_db\<lparr>gconfig := [(''group_key'', b64_encode sample_ext sample_group_key)],
     members := [sample_owner], member_seq := 1, messages := sample_log, message_seq := 2\<rparr>,
     group_conns := [(''ann'', 0)], next_queue := 1\<rparr>"

definition sample_join :: "string \<Rightarrow> join_req" where
  "sample_join name = \<lparr>jr_username = name, jr_pubkey = sample_key\<rparr>"

definition sample_box :: "bytes \<Rightarrow> bytes" where
  "sample_box nonce = replicate 32 1 @ nonce @ sample_group_key @ replicate 16 0"

definition sample_dec :: "bytes \<Rightarrow> bytes \<Rightarrow> bytes \<Rightarrow> bytes option" where
  "sample_dec k n c = Some (take (length c - 16) c)"

lemma sample_dh_agrees: "dh_agrees sample_ext"
proof -
  have "map2 (+) a b = map2 (+) b a" for a b :: bytes
    by (rule nth_equalityI) (simp_all add: add.commute)
  then show ?thesis by (simp add: dh_agrees_def sample_ext_def)
qed

lemma sample_aead_ok: "aead_ok sample_ext sample_dec"
  by (auto simp: aead_ok_def sample_dec_def sample_ext_def)

lemma sample_ecies: "ecies_encrypt sample_ext (replicate 32 1) nonce pk gk = Inr (replicate 32 1 @ nonce @ gk @ replicate 16 0)"
  by (simp add: ecies_encrypt_def sample_ext_def)

lemma sample_box_made: "ecies_encrypt sample_ext (replicate 32 1) nonce pk sample_group_key = Inr (sample_box nonce)"
  by (simp add: sample_ecies sample_box_def)

lemma sample_decode: "b64_decode sample_ext sample_key = Some (as_bytes sample_key)" "length (as_bytes sample_key) = 32"
  by (simp_all add: sample_ext_def as_bytes_def sample_key_def)

lemma sample_group_simps [simp]:
  "faults empty_group = []" "members (pool empty_group) = []" "config empty_group = sample_config"
  "group_key_of sample_ext (pool empty_group) = Some sample_group_key" "owners (pool empty_group) = 0"
  "faults sample_group = []" "members (pool sample_group) = [sample_owner]" "config sample_group = sample_config"
  "group_key_of sample_ext (pool sample_group) = Some sample_group_key" "owners (pool sample_group) = 1"
  "messages (pool sample_group) = sample_log"
  using sample_base64_ok
  by (simp_all add: empty_group_def sample_group_def sample_server_simps empty_db_def group_key_of_def base64_ok_def
      owners_def sample_owner_def)

lemma sample_max_members: "max_members (cfg_group sample_config) = 0" "broadcast_only (cfg_group sample_config) = False"
  by (simp_all add: sample_config_def group_default_def)

lemma sample_admitted: "admitted_to s" if "config s = sample_config"
  using that by (simp add: admitted_to_def sample_max_members)

lemma sample_group_ok: "db_ok (pool sample_group)" "db_ok (pool empty_group)"
  by (simp_all add: db_ok_def table_ok_defs sample_group_def empty_group_def sample_server_simps empty_db_def
      user_ids_def sample_owner_def sample_log_def)

lemma sample_hash_eq: "length r \<noteq> length r' \<Longrightarrow>
    hash_token sample_ext (generate_token sample_ext r) \<noteq> hash_token sample_ext (generate_token sample_ext r')"
  using length_sample_hash [of r] length_sample_hash [of r'] by auto

lemma sample_new_hash: "hash_token sample_ext (generate_token sample_ext []) \<notin> m_hash ` set (members (pool sample_group))"
  using sample_hash_eq [of "[]" sample_rnd] by (simp add: sample_owner_def sample_token_def sample_rnd_def)

text \<open>A state in which the sample joins succeed, and stays one.\<close>

definition joinable :: "app_state \<Rightarrow> bool" where
  "joinable s \<longleftrightarrow> faults s = [] \<and> config s = sample_config \<and> group_key_of sample_ext (pool s) = Some sample_group_key"

lemma sample_joins:
  assumes "joinable s" "hash_token sample_ext (generate_token sample_ext rnd) \<notin> m_hash ` set (members (pool s))"
  shows "\<exists>s' role. run (group_join sample_ext fresh (replicate 32 1) nonce rnd (sample_join name)) s =
      (Inr (joined_response sample_ext (generate_token sample_ext rnd) (sample_box nonce) role), s') \<and> joinable s' \<and>
    m_hash ` set (members (pool s')) \<subseteq> insert (hash_token sample_ext (generate_token sample_ext rnd)) (m_hash ` set (members (pool s)))"
proof -
  have s: "faults s = []" "config s = sample_config" "group_key_of sample_ext (pool s) = Some sample_group_key"
    using assms(1) by (simp_all add: joinable_def)
  have key: "b64_decode sample_ext (jr_pubkey (sample_join name)) = Some (as_bytes sample_key)"
    by (simp add: sample_join_def sample_decode)
  have own: "\<forall>m \<in> set (members (pool s)). m_hash m = hash_token sample_ext (generate_token sample_ext rnd) \<longrightarrow>
      m_name m = jr_username (sample_join name)" using assms(2) by (metis imageI)
  have g: "gconfig (snd (upsert_member n k h r w d)) = gconfig d" for n k h r w d by (simp add: upsert_member_def Let_def)
  have m: "m_hash ` set (members (snd (upsert_member n k h r w d))) \<subseteq> insert h (m_hash ` set (members d))"
    for n k h r w d by (auto simp: upsert_member_def Let_def split: if_splits)
  show ?thesis
    unfolding run_group_join [OF s(1) sample_admitted [OF s(2)] key sample_decode(2) group_key_again [OF s(1,3)]
        sample_box_made own sample_base64_ok] Let_def
    using s m by (simp add: joinable_def g group_key_of_def) blast
qed

theorem ecies_roundtrip_witness:
  "ecies_decrypt sample_ext sample_dec [3, 4] (replicate 32 1 @ replicate 12 2 @ [9, 8] @ replicate 16 0) = Some [9, 8]"
  using ecies_roundtrip [OF sample_dh_agrees sample_aead_ok, of "replicate 32 1" "replicate 12 2" "[3, 4]" "[9, 8]"] sample_ecies
  by (simp add: sample_ext_def)

theorem one_owner_kept_witness:
  "owners (pool (snd (run (group_join sample_ext [] [] [] [] (sample_join ''bob'')) sample_group))) \<le> 1"
  using one_owner_kept [of sample_group sample_ext "[]" "[]" "[]" "[]" "sample_join ''bob''" "[]"] by simp

theorem group_join_takeover_witness:
  "\<exists>s'. run (resolve_member sample_ext (bearer (generate_token sample_ext []))) s' = (Inr (''ann'', ''owner''), s') \<and>
     run (resolve_member sample_ext (bearer sample_token)) s' = (Inl (Fail Unauthorized), s')"
  using group_key_again [of sample_group sample_ext sample_group_key "[]"]
    group_join_takeover [of sample_group sample_ext "sample_join ''ann''" "as_bytes sample_key" "[]" sample_group_key
      sample_group "replicate 32 1" "replicate 12 2" "sample_box (replicate 12 2)" "[]" sample_owner "bearer sample_token" sample_token]
    sample_group_ok sample_admitted [of sample_group] sample_decode sample_box_made sample_new_hash sample_base64_ok sample_hex_ok
    extract_bearer_token [OF sample_hex_ok]
  by (simp add: sample_join_def Let_def sample_owner_def sample_token_def) blast

theorem owner_on_engine_error_witness:
  "owners (pool (snd (run (group_join sample_ext [] (replicate 32 1) [] [] (sample_join ''bob''))
     (sample_group\<lparr>faults := [False, True]\<rparr>)))) = 2"
  using owner_on_engine_error [of "sample_group\<lparr>faults := [False, True]\<rparr>" sample_ext "sample_join ''bob''" "as_bytes sample_key"
      sample_group_key "replicate 32 1" "[]" "sample_box []" "[]" "[]"] sample_new_hash
  by (simp add: sample_join_def sample_decode sample_box_made sample_max_members) (simp add: sample_owner_def)

theorem two_owners_race_witness:
  "\<exists>t ps. (sched (=) (\<lambda>p. False))\<^sup>*\<^sup>*
     (empty_group, [group_join sample_ext [] (replicate 32 1) [] [] (sample_join ''bob''),
        group_join sample_ext [] (replicate 32 1) [] [0] (sample_join ''eve'')]) (t, ps) \<and> owners (pool t) = 2"
  by (rule two_owners_race [of empty_group sample_ext sample_group_key "sample_join ''bob''" "as_bytes sample_key" "replicate 32 1"
      "[]" "sample_box []" "sample_join ''eve''" "as_bytes sample_key" "replicate 32 1" "[]" "sample_box []" "[]" "[0]"])
    (simp_all add: sample_join_def sample_decode sample_box_made sample_hash_eq)

theorem post_message_logged_witness:
  "\<exists>s'. run (post_message sample_ext 2 ''ann'' ''yo'') sample_group = (Inr (), s') \<and>
     message_log (pool s') = [(''ann'', ''ho'', 1), (''ann'', ''yo'', 0)]"
  using post_message_logged [of sample_group sample_ext 2 "''ann''" "''yo''"] sample_group_ok
  by (auto simp: message_log_def sample_log_def last_n_def now_secs_def sample_group_def sample_server_simps)

theorem history_answer_witness:
  "run (group_history sample_ext (bearer sample_token)) sample_group =
     (Inr (json_response 200 [(''messages'', JArr [message_json (''ann'', ''hi'', 0), message_json (''ann'', ''ho'', 1)])]), sample_group)"
  using history_answer [of sample_group sample_ext "bearer sample_token" "(''ann'', ''owner'')"] sample_group_ok
    extract_bearer_token [OF sample_hex_ok]
  by (simp add: run_resolve_member sample_token_def sample_owner_def message_log_def sample_log_def last_n_def
      sample_config_def group_default_def)

theorem channel_readers_silent_witness:
  "\<exists>frames. run (group_text sample_ext ''bob'' ''member'' ''hello'')
      (sample_group\<lparr>config := sample_config\<lparr>cfg_group := group_default\<lparr>broadcast_only := True\<rparr>\<rparr>\<rparr>) =
     (Inr frames, sample_group\<lparr>config := sample_config\<lparr>cfg_group := group_default\<lparr>broadcast_only := True\<rparr>\<rparr>\<rparr>)"
  using channel_readers_silent [of "sample_group\<lparr>config := sample_config\<lparr>cfg_group := group_default\<lparr>broadcast_only := True\<rparr>\<rparr>\<rparr>"
      "''member''" sample_ext "''bob''" "''hello''"] by auto

theorem group_leave_complete_witness:
  "\<exists>s'. run (group_leave sample_ext (bearer sample_token)) sample_group = (Inr no_content, s') \<and> members (pool s') = [] \<and>
     group_conns s' = [(''ann'', 0)]"
  using group_leave_complete [of sample_group sample_ext "bearer sample_token" "''ann''" "''owner''"] sample_group_ok
    extract_bearer_token [OF sample_hex_ok]
  by (simp add: run_resolve_member sample_token_def sample_owner_def) (auto simp: sample_group_def)

end
