(* ===== verification/Server.thy ===== *)
theory Server
  imports Group_Facts
begin

text \<open>
  The assembled server (\<open>src/main.rs\<close> and the \<open>router\<close> functions): the route tables, the handler of
  each endpoint, and what runs beside the requests. \<open>server_reach\<close> is every interleaving of requests
  and tasks at their \<open>.await\<close> points from the start of the process, \<open>one_by_one\<close> the executions in
  which each request ends before the next one starts. Matching a URL against the tables is axum's.
\<close>

section \<open>Routes\<close>

datatype endpoint =
    Info | Register | Lookup | Search | Update | Heartbeat | Unregister | Token_Refresh | Invite_Create
  | Relay_Create | Relay_Join | Relay_Socket
  | Group_Info | Group_Join | Group_Leave | Group_Members | Group_History | Group_Socket

type_synonym routes = "((string \<times> string) \<times> endpoint) list"

definition discovery_routes :: routes where
  "discovery_routes =
     [((''GET'', ''/info''), Info), ((''POST'', ''/register''), Register),
      ((''GET'', ''/lookup/{username}''), Lookup), ((''GET'', ''/search''), Search),
      ((''PUT'', ''/update''), Update), ((''POST'', ''/heartbeat''), Heartbeat),
      ((''DELETE'', ''/unregister''), Unregister), ((''POST'', ''/token/refresh''), Token_Refresh),
      ((''POST'', ''/invite/create''), Invite_Create)]"

definition relay_routes :: routes where
  "relay_routes =
     [((''POST'', ''/relay/create''), Relay_Create), ((''POST'', ''/relay/join/{id}''), Relay_Join),
      ((''GET'', ''/relay/{id}''), Relay_Socket)]"

definition group_routes :: routes where
  "group_routes =
     [((''GET'', ''/info''), Group_Info), ((''POST'', ''/group/join''), Group_Join),
      ((''DELETE'', ''/group/leave''), Group_Leave), ((''GET'', ''/group/members''), Group_Members),
      ((''GET'', ''/group/history''), Group_History), ((''GET'', ''/group/ws''), Group_Socket)]"

definition build_router :: "string \<Rightarrow> routes" where
  "build_router m = (if m = ''group'' \<or> m = ''channel'' then group_routes else discovery_routes) @ relay_routes"

text \<open>The handler of an endpoint, for some extracted arguments and some random draws.\<close>

inductive handles :: "'v ext \<Rightarrow> endpoint \<Rightarrow> response handler \<Rightarrow> bool" for E where
  h_info: "handles E Info (info E)"
| h_register: "handles E Register (register E rnd peer rq)"
| h_lookup: "handles E Lookup (lookup E peer name)"
| h_search: "handles E Search (search E q)"
| h_update: "handles E Update (update_presence E hs rq')"
| h_heartbeat: "handles E Heartbeat (heartbeat E hs)"
| h_unregister: "handles E Unregister (unregister E hs)"
| h_token_refresh: "handles E Token_Refresh (token_refresh E rnd hs)"
| h_invite_create: "handles E Invite_Create (invite_create E r hs)"
| h_relay_create: "handles E Relay_Create (relay_create E uuid rnd_a rnd_b hs)"
| h_relay_join: "handles E Relay_Join (relay_join E hs sid)"
| h_relay_ws: "handles E Relay_Socket (relay_ws E sid token)"
| h_group_info: "handles E Group_Info group_info"
| h_group_join: "handles E Group_Join (group_join E fresh secret nonce rnd join_rq)"
| h_group_leave: "handles E Group_Leave (group_leave E hs)"
| h_group_members: "handles E Group_Members (group_members E hs)"
| h_group_history: "handles E Group_History (group_history E hs)"
| h_group_ws: "handles E Group_Socket (group_ws E token)"

inductive_cases handles_cases [elim]: "handles E e p"

inductive_simps handles_simps [simp]:
  "handles E Relay_Create p" "handles E Relay_Join p" "handles E Relay_Socket p" "handles E Group_Info p"
  "handles E Group_Join p" "handles E Group_Leave p" "handles E Group_Members p" "handles E Group_History p"
  "handles E Group_Socket p"

definition served :: "'v ext \<Rightarrow> string \<Rightarrow> response handler \<Rightarrow> bool" where
  "served E m p \<longleftrightarrow> (\<exists>k e. (k, e) \<in> set (build_router m) \<and> handles E e p)"

text \<open>
  What is in flight beside the requests: a pass of the clean-up task, and the sections of the group
  WebSocket task, whose results no one waits for.
\<close>

definition detached :: "'a handler \<Rightarrow> response handler" where
  "detached p = pmap (map_sum id (\<lambda>_. no_content)) p"

inductive background :: "'v ext \<Rightarrow> string \<Rightarrow> response handler \<Rightarrow> bool" for E m where
  b_cleanup: "background E m (detached cleanup_pass)"
| b_connect: "m = ''group'' \<or> m = ''channel'' \<Longrightarrow> background E m (detached (connect u))"
| b_history: "m = ''group'' \<or> m = ''channel'' \<Longrightarrow> background E m (detached (history_frames E))"
| b_text: "m = ''group'' \<or> m = ''channel'' \<Longrightarrow> background E m (detached (group_text E u r t))"
| b_disconnect: "m = ''group'' \<or> m = ''channel'' \<Longrightarrow> background E m (detached (disconnect u))"
| b_leave: "m = ''group'' \<or> m = ''channel'' \<Longrightarrow> background E m (detached (broadcast (leave_frame E u)))"

text \<open>
  What moves without a request: the clocks go on, the next statements succeed or fail, the version
  task finishes a fetch, and the WebSocket tasks of relay sessions use their channels or give a
  session up.
\<close>

inductive environment :: "app_state \<Rightarrow> app_state \<Rightarrow> bool" where
  e_clock: "mono_now s \<le> t \<Longrightarrow> environment s (s\<lparr>utc_now := u, mono_now := t\<rparr>)"
| e_engine: "environment s (s\<lparr>faults := fs\<rparr>)"
| e_version: "environment s (refresh_step resp s)"
| e_channels: "environment s (s\<lparr>arcs := a\<rparr>)"
| e_give_up: "environment s (s\<lparr>relay_pending := AList.delete sid (relay_pending s)\<rparr>)"

definition server_reach :: "'v ext \<Rightarrow> config \<Rightarrow> db \<Rightarrow> string \<Rightarrow> app_state \<times> response handler list \<Rightarrow> bool" where
  "server_reach E c d m = sched_reach environment (\<lambda>p. served E m p \<or> background E m p) (new_state d c m)"

section \<open>Every interleaving keeps the schema\<close>

theorem routes_distinct: "distinct (map fst (build_router m))"
  by (simp add: build_router_def discovery_routes_def relay_routes_def group_routes_def)

lemma background_safe: "background E m p \<Longrightarrow> safe pool_ok p"
  by (erule background.cases) (simp_all add: detached_def safe_rules)

lemma handles_safe: "handles E e p \<Longrightarrow> safe pool_ok p"
  by (erule handles.cases) (simp_all add: safe_rules)

lemma served_cases [consumes 1, case_names request task]:
  assumes "served E m p \<or> background E m p"
  obtains e where "handles E e p" | "background E m p"
  using assms by (auto simp: served_def)

text \<open>An invariant of the database that every section keeps holds at every moment.\<close>

lemma server_invariant:
  assumes "server_reach E c d m (s, ps)" "P d"
    and "\<And>p. served E m p \<or> background E m p \<Longrightarrow> safe (\<lambda>s. P (pool s)) p"
  shows "P (pool s)"
  using assms(1) unfolding server_reach_def
proof (rule sched_safe [where I = "\<lambda>s. P (pool s)"])
  show "P (pool (new_state d c m))" using assms(2) by (simp add: new_state_def)
  show "P (pool s')" if "P (pool s)" "environment s s'" for s s'
    using that(2,1) by cases (simp_all add: refresh_step_def split: sum.split)
qed (rule assms(3))


section \<open>Group mode has no accounts\<close>

lemma tokens_stmts [simp]:
  "tokens (snd (insert_config k v d)) = tokens d" "tokens (snd (upsert_member n p h r t d)) = tokens d"
  "tokens (snd (delete_member n d)) = tokens d" "tokens (snd (insert_message u x ts d)) = tokens d"
  "tokens (snd (prune_messages l d)) = tokens d" "tokens (snd (insert_session sid uid t d)) = tokens d"
  "tokens (snd (set_joiner uid sid d)) = tokens d"
  by (simp_all add: insert_config_def upsert_member_def Let_def delete_member_def insert_message_def prune_messages_def
      insert_session_def set_joiner_def)

lemma sessions_stmts [simp]:
  "sessions (snd (insert_config k v d)) = sessions d" "sessions (snd (upsert_member n p h r t d)) = sessions d"
  "sessions (snd (delete_member n d)) = sessions d" "sessions (snd (insert_message u x ts d)) = sessions d"
  "sessions (snd (prune_messages l d)) = sessions d"
  by (simp_all add: insert_config_def upsert_member_def Let_def delete_member_def insert_message_def prune_messages_def)

lemma query_snd [simp]: "snd (query f d) = d"
  by (simp add: query_def)

lemmas queries = count_members_def select_member_def select_config_def list_members_def select_history_def
  select_token_def

text \<open>
  What the handlers of group mode leave alone: an invariant that survives statements that keep the
  tokens, frames put into the queues, and changes of the relay tables, survives every section of
  every handler.
\<close>

locale group_http =
  fixes I :: "app_state \<Rightarrow> bool"
  assumes local_db: "I s \<Longrightarrow> tokens d = tokens (pool s) \<Longrightarrow> sessions d = sessions (pool s) \<Longrightarrow>
      I (s\<lparr>pool := d, faults := fs\<rparr>)"
    and local_frames: "I s \<Longrightarrow> I (broadcasted f s)"
    and local_spawned: "I s \<Longrightarrow> I (s\<lparr>spawned := ts\<rparr>)"
begin

lemma local_sql:
  assumes "\<And>s d. tokens (snd (f s d)) = tokens d" "\<And>s d. sessions (snd (f s d)) = sessions d"
  shows "safe I (sql f)"
proof (rule safe_sql)
  show "I (s\<lparr>faults := tl (faults s)\<rparr>)" if "I s" for s
    using local_db [OF that, of "pool s" "tl (faults s)"] by simp
  show "I (s\<lparr>pool := snd (f s (pool s)), faults := tl (faults s)\<rparr>)" if "I s" for s
    using local_db [OF that] assms by simp
qed

lemma local_broadcast: "safe I (broadcast f)"
  unfolding broadcast_def by (rule safe_atomic) (simp add: local_frames flip: broadcasted_def)

lemma local_upgrade: "safe I (on_upgrade t)"
  unfolding on_upgrade_def by (rule safe_atomic) (simp add: local_spawned)

lemma local_auth: "safe I (resolve_member E hs)" "safe I (resolve_token E hs)" "safe I get_member_count"
  unfolding resolve_member_def resolve_token_def get_member_count_def
  by (intro safe_rules local_sql; simp add: queries)+

lemma local_group:
  "safe I group_info" "safe I (group_join E fresh secret nonce rnd rq)" "safe I (group_leave E hs)"
  "safe I (group_members E hs)" "safe I (group_history E hs)" "safe I (group_ws E token)"
  "safe I (group_text E u r t)" "safe I (history_frames E)"
  unfolding group_info_def group_join_def check_members_def member_key_def get_or_create_group_key_def
    encrypt_group_key_def Let_def group_leave_def group_members_def group_history_def group_ws_def group_text_def
    post_message_def history_frames_def
  by (intro safe_rules local_auth local_broadcast local_upgrade local_sql; simp add: queries)+

end

text \<open>The relay handlers are served in group mode too.\<close>

locale group_local = group_http +
  assumes local_sessions: "I s \<Longrightarrow> tokens d = tokens (pool s) \<Longrightarrow> I (s\<lparr>pool := d, faults := fs\<rparr>)"
    and local_relay: "I s \<Longrightarrow> I (s\<lparr>relay_init := i, relay_pending := p, arcs := a, next_arc := n\<rparr>)"
begin

lemma local_session_sql:
  assumes "\<And>s d. tokens (snd (f s d)) = tokens d"
  shows "safe I (sql f)"
proof (rule safe_sql)
  show "I (s\<lparr>faults := tl (faults s)\<rparr>)" if "I s" for s
    using local_sessions [OF that, of "pool s" "tl (faults s)"] by simp
  show "I (s\<lparr>pool := snd (f s (pool s)), faults := tl (faults s)\<rparr>)" if "I s" for s
    using local_sessions [OF that] assms by simp
qed

lemma local_tables:
  "I s \<Longrightarrow> I (s\<lparr>relay_init := i\<rparr>)" "I s \<Longrightarrow> I (s\<lparr>relay_pending := p\<rparr>)"
  "I s \<Longrightarrow> I (s\<lparr>arcs := a, next_arc := n\<rparr>)"
  using local_relay [where s = s and i = i and p = "relay_pending s" and a = "arcs s" and n = "next_arc s"]
    local_relay [where s = s and i = "relay_init s" and p = p and a = "arcs s" and n = "next_arc s"]
    local_relay [where s = s and i = "relay_init s" and p = "relay_pending s" and a = a and n = n]
  by simp_all

lemma local_sections:
  "safe I (init_session sid r)" "safe I (new_arc h)" "safe I (drop_init sid)"
  "safe I (put_pending sid p)" "safe I (retain_init now grace)" "safe I (retain_pending now grace)"
  "safe I (atomic (\<lambda>s. map_prod Inr id (take_pending hash sid s)))"
  unfolding relay_sections take_pending_def
  by (rule safe_atomic, simp add: local_tables local_spawned split: option.split)+

lemma local_relays:
  "safe I (relay_create E uuid rnd_a rnd_b hs)" "safe I (relay_join E hs sid)" "safe I (relay_ws E sid token)"
  "safe I cleanup_pass"
  unfolding relay_create_def check_sessions_def open_session_def relay_join_def relay_ws_def cleanup_pass_def Let_def
  by (intro safe_rules local_auth local_sections local_upgrade local_session_sql; simp add: queries)+

lemma local_served: "served E ''group'' p \<Longrightarrow> safe I p" "served E ''channel'' p \<Longrightarrow> safe I p"
  by (auto simp: served_def build_router_def group_routes_def relay_routes_def local_group local_relays)

end

abbreviation no_tokens :: "app_state \<Rightarrow> bool" where
  "no_tokens s \<equiv> tokens (pool s) = []"

interpretation accounts: group_local no_tokens
  by unfold_locales simp_all

lemma no_tokens_conns: "safe no_tokens (connect u)" "safe no_tokens (disconnect u)"
  unfolding connect_def disconnect_def by (rule safe_atomic, simp)+

lemma group_background:
  "background E m p \<Longrightarrow> safe no_tokens p"
  by (erule background.cases)
    (simp_all add: detached_def safe_pmap accounts.local_group accounts.local_relays accounts.local_broadcast no_tokens_conns)


section \<open>One request after the other\<close>

inductive one_by_one :: "'v ext \<Rightarrow> string \<Rightarrow> app_state \<Rightarrow> app_state \<Rightarrow> bool" for E m s0 where
  o_start: "one_by_one E m s0 s0"
| o_run: "one_by_one E m s0 s \<Longrightarrow> served E m p \<or> background E m p \<Longrightarrow> one_by_one E m s0 (snd (run p s))"
| o_env: "one_by_one E m s0 s \<Longrightarrow> environment s s' \<Longrightarrow> one_by_one E m s0 s'"

definition within_limit :: "config \<Rightarrow> app_state \<Rightarrow> bool" where
  "within_limit c s \<longleftrightarrow> relay_ok s \<and> config s = c \<and>
     (0 < max_sessions (cfg_relay c) \<longrightarrow> session_count s \<le> unat (max_sessions (cfg_relay c)))"

lemma within_limit_db:
  "within_limit c s \<Longrightarrow> s_id ` set (sessions d) = s_id ` set (sessions (pool s)) \<Longrightarrow>
     within_limit c (s\<lparr>pool := d, faults := fs\<rparr>)"
  using relay_ok_frame [of s d fs] by (simp add: within_limit_def session_count_def)

lemma within_limit_same:
  assumes "within_limit c s" "relay_init s' = relay_init s" "relay_pending s' = relay_pending s"
    and "next_arc s' = next_arc s" "config s' = config s" "pool s' = pool s"
  shows "within_limit c s'"
  using assms by (simp add: within_limit_def relay_ok_def session_count_def)

lemma within_limit_sql:
  assumes "\<And>s d. s_id ` set (sessions (snd (f s d))) = s_id ` set (sessions d)"
  shows "safe (within_limit c) (sql f)"
proof (rule safe_sql)
  show "within_limit c (s\<lparr>faults := tl (faults s)\<rparr>)" if "within_limit c s" for s
    using within_limit_db [OF that, of "pool s" "tl (faults s)"] by simp
  show "within_limit c (s\<lparr>pool := snd (f s (pool s)), faults := tl (faults s)\<rparr>)" if "within_limit c s" for s
    using within_limit_db [OF that] assms by simp
qed

text \<open>The statements of discovery keep the ids of the audit table.\<close>

lemma session_ids_stmts [simp]:
  "sessions (snd (insert_user n l k e t d)) = sessions d" "sessions (snd (insert_presence u i po t d)) = sessions d"
  "sessions (snd (insert_token u h x t d)) = sessions d" "sessions (snd (use_invite u code t d)) = sessions d"
  "sessions (snd (upsert_presence u i po t d)) = sessions d" "sessions (snd (touch_presence u t d)) = sessions d"
  "sessions (snd (delete_oldest_token u d)) = sessions d" "sessions (snd (insert_invite code u t d)) = sessions d"
  "sessions (snd (select_online_by_ip co i d)) = sessions d" "sessions (snd (search_users pat d)) = sessions d"
  "s_id ` set (sessions (snd (delete_user u d))) = s_id ` set (sessions d)"
  by (simp_all add: insert_user_def insert_presence_def insert_token_def use_invite_def upsert_presence_def
      touch_presence_def delete_user_def delete_oldest_token_def insert_invite_def select_online_by_ip_def
      search_users_def Let_def image_image split: option.split)

lemmas discovery_queries = count_users_def count_online_def select_open_invite_def select_user_by_lc_def
  select_lookup_def count_tokens_def select_token_def

lemma within_limit_auth: "safe (within_limit c) (resolve_token E hs)"
  unfolding resolve_token_def by (intro safe_rules within_limit_sql; simp add: discovery_queries)

lemma within_limit_limiter: "safe (within_limit c) (limit_register ip)" "safe (within_limit c) (limit_lookup ip)"
  unfolding limit_register_def limit_lookup_def
  by (rule safe_atomic, erule within_limit_same; simp split: prod.split)+

lemma within_limit_token: "safe (within_limit c) (issue_token E cc rnd uid)"
  unfolding issue_token_def expires_at_def Let_def
  by (intro safe_rules safe_atomic within_limit_sql; simp)

lemma within_limit_write: "safe (within_limit c) (register_write E cc rnd rq)"
  unfolding register_write_def by (intro safe_rules within_limit_token within_limit_sql; simp)

lemma within_limit_discovery:
  "safe (within_limit c) (info E)" "safe (within_limit c) (register E rnd peer rq)"
  "safe (within_limit c) (lookup E peer name)" "safe (within_limit c) (search E q)"
  "safe (within_limit c) (update_presence E hs rq')" "safe (within_limit c) (heartbeat E hs)"
  "safe (within_limit c) (unregister E hs)" "safe (within_limit c) (token_refresh E rnd hs)"
  "safe (within_limit c) (invite_create E r hs)"
  unfolding info_def register_def check_version_def check_invite_def check_username_def check_pubkey_def check_ip_def
    check_email_def check_max_users_def lookup_def search_def update_presence_def heartbeat_def unregister_def
    token_refresh_def invite_create_def Let_def
  by (intro safe_rules within_limit_auth within_limit_limiter within_limit_token within_limit_write within_limit_sql;
      simp add: discovery_queries)+

interpretation limited: group_http "within_limit c" for c
proof
  show "within_limit c (s\<lparr>pool := d, faults := fs\<rparr>)"
    if "within_limit c s" "sessions d = sessions (pool s)" for c s d fs using that by (simp add: within_limit_db)
  show "within_limit c (broadcasted f s)" if "within_limit c s" for c s f
    using that by (rule within_limit_same) (simp_all add: broadcasted_def)
  show "within_limit c (s\<lparr>spawned := ts\<rparr>)" if "within_limit c s" for c s ts
    using that by (rule within_limit_same) simp_all
qed

lemma within_limit_fewer:
  assumes "within_limit c s" "relay_ok s'" "config s' = config s"
    and "length (relay_init s') \<le> length (relay_init s)" "length (relay_pending s') \<le> length (relay_pending s)"
  shows "within_limit c s'"
  using assms by (auto simp: within_limit_def session_count_def)

lemma keeps_limit_create: "keeps (within_limit c) (relay_create E uuid rnd_a rnd_b hs)"
proof (rule keepsI)
  fix s assume s: "within_limit c s"
  let ?s' = "snd (run (relay_create E uuid rnd_a rnd_b hs) s)"
  have "safe (\<lambda>t. config t = c) (relay_create E uuid rnd_a rnd_b hs)"
    unfolding relay_create_def check_sessions_def open_session_def init_session_def resolve_token_def Let_def
    by (intro safe_rules safe_sql safe_atomic; simp)
  then have "config ?s' = c" by (rule safe_run) (use s in \<open>simp add: within_limit_def\<close>)
  then show "within_limit c ?s'"
    using s keepsD [OF relay_ok_create, of s E uuid rnd_a rnd_b hs] count_create [of s E uuid rnd_a rnd_b hs]
    by (simp add: within_limit_def)
qed

lemma keeps_limit_join: "keeps (within_limit c) (relay_join E hs sid)"
  unfolding relay_join_def
  by (rule keeps_safe, intro safe_rules within_limit_auth within_limit_sql; simp add: set_joiner_ids)

lemma keeps_limit_ws: "keeps (within_limit c) (relay_ws E sid token)"
proof (rule keepsI)
  fix s assume s: "within_limit c s"
  then have ok: "relay_ok (snd (run (relay_ws E sid token) s))" by (simp add: within_limit_def relay_ok_ws)
  have joiner: "within_limit c (s\<lparr>relay_pending := AList.delete sid (relay_pending s), spawned := ts\<rparr>)" for ts
    using s by (rule within_limit_fewer)
      (use s relay_ok_joiner in \<open>auto simp: within_limit_def AList.delete_eq\<close>)
  have creator: "within_limit c (creator_connected sid r s)" if "map_of (relay_init s) sid = Some r" for r
    using s that relay_ok_creator count_creator
    by (auto simp: within_limit_def creator_connected_def)
  show "within_limit c (snd (run (relay_ws E sid token) s))"
    using s joiner creator by (auto simp: run_relay_ws split: option.split)
qed

lemma keeps_limit_cleanup: "keeps (within_limit c) cleanup_pass"
proof (rule keepsI)
  fix s assume s: "within_limit c s"
  then have "relay_ok (snd (run cleanup_pass s))" by (intro safe_run [OF relay_ok_cleanup]) (simp add: within_limit_def)
  then show "within_limit c (snd (run cleanup_pass s))"
    by (rule within_limit_fewer [OF s])
      (simp_all add: run_cleanup split: option.split)
qed

lemma keeps_detached: "keeps I p \<Longrightarrow> keeps I (detached p)"
  by (auto simp: keeps_def detached_def run_pmap split: prod.split)

lemma safe_limit_conns: "safe (within_limit c) (connect u)" "safe (within_limit c) (disconnect u)"
  unfolding connect_def disconnect_def
  by (rule safe_atomic, erule within_limit_same; simp)+

lemma keeps_limit: "served E m p \<or> background E m p \<Longrightarrow> keeps (within_limit c) p"
proof (induction rule: served_cases)
  case (request e)
  then show ?case
    by cases (simp_all add: keeps_safe within_limit_discovery limited.local_group keeps_limit_create keeps_limit_join
        keeps_limit_ws)
next
  case task
  then show ?case
    by cases (simp_all add: keeps_detached keeps_safe limited.local_group limited.local_broadcast keeps_limit_cleanup
        safe_limit_conns)
qed

text \<open>C19. When requests do not overlap, no session is in both relay tables, every session has its audit row, and \<open>max_sessions\<close> is never exceeded, whatever else the server does.\<close>

theorem relay_limit_one_by_one:
  assumes "one_by_one E m (new_state d c m) s"
  shows "relay_ok s \<and> (0 < max_sessions (cfg_relay c) \<longrightarrow> session_count s \<le> unat (max_sessions (cfg_relay c)))"
proof -
  have "within_limit c s"
    using assms
  proof (induction rule: one_by_one.induct)
    case o_start
    then show ?case
      by (simp add: within_limit_def relay_ok_def new_state_def session_count_def hm.ok_empty hms.disjoint_def)
  next
    case (o_run s p)
    then show ?case by (intro keepsD [OF keeps_limit])
  next
    case (o_env s s')
    from o_env.hyps(2) o_env.IH show ?case
    proof cases
      case (e_give_up sid)
      with o_env.IH show ?thesis
        using relay_ok_joiner [where s = s and sid = sid and ts = "spawned s"]
        unfolding e_give_up by (intro within_limit_fewer [OF o_env.IH]) (auto simp: within_limit_def AList.delete_eq)
    qed (auto intro: within_limit_same [OF o_env.IH] simp: refresh_step_def split: sum.split)
  qed
  then show ?thesis by (simp add: within_limit_def)
qed

section \<open>Sample executions\<close>

lemma server_start: "server_reach E c d m (new_state d c m, [])"
  by (simp add: server_reach_def reach_start)

text \<open>A request that arrives and runs to its answer.\<close>

lemma server_request:
  assumes "server_reach E c d m (s, ps)" "served E m p" "run p s = (Inr a, s')"
  shows "server_reach E c d m (s', pure a # ps)"
proof -
  have "sched_reach environment (\<lambda>p. served E m p \<or> background E m p) (new_state d c m) (s, p # ps)"
    using assms(1,2) unfolding server_reach_def by (blast intro: reach_step sched_new)
  with sched_run [of 0 "p # ps", OF _ _ assms(3)] show ?thesis
    unfolding server_reach_def by (auto intro: sched_reach_steps)
qed

lemma sample_home_new: "sample_home = new_state sample_db sample_config ''discovery''"
  by (simp add: sample_home_def sample_server_def new_state_def)



definition sample_limited :: config where
  "sample_limited = sample_config\<lparr>cfg_relay := relay_default\<lparr>max_sessions := 1\<rparr>\<rparr>"

theorem relay_limit_one_by_one_witness:
  "session_count (snd (run (relay_create sample_ext [1] [] [2] (bearer sample_token))
     (new_state sample_db sample_limited ''discovery''))) \<le> 1"
proof -
  have "served sample_ext ''discovery'' (relay_create sample_ext [1] [] [2] (bearer sample_token))"
    unfolding served_def by (intro exI [of _ "(''POST'', ''/relay/create'')"] exI [of _ Relay_Create] conjI h_relay_create)
      (simp add: build_router_def relay_routes_def)
  then have "one_by_one sample_ext ''discovery'' (new_state sample_db sample_limited ''discovery'')
      (snd (run (relay_create sample_ext [1] [] [2] (bearer sample_token)) (new_state sample_db sample_limited ''discovery'')))"
    by (blast intro: o_run o_start)
  from relay_limit_one_by_one [OF this] show ?thesis by (simp add: sample_limited_def)
qed

end
