(* ===== verification/Statement_Rules.thy ===== *)
theory Statement_Rules
  imports Server
begin

text \<open>
  Properties of the database that every statement keeps: the locale \<open>statement_property\<close> asks for one law per writing
  statement of \<open>Sql\<close>, and gives that the property survives every section of every handler and task, hence
  holds at every moment of the whole server.
\<close>

locale statement_property =
  fixes P :: "db \<Rightarrow> bool"
  assumes after_user: "P d \<Longrightarrow> P (snd (insert_user n l k e t d))"
    and after_presence: "P d \<Longrightarrow> P (snd (insert_presence u ip port t d))"
    and after_token: "P d \<Longrightarrow> P (snd (insert_token u h x t d))"
    and after_upsert: "P d \<Longrightarrow> P (snd (upsert_presence u ip port t d))"
    and after_touch: "P d \<Longrightarrow> P (snd (touch_presence u t d))"
    and after_delete: "P d \<Longrightarrow> P (snd (delete_user u d))"
    and after_evict: "P d \<Longrightarrow> P (snd (delete_oldest_token u d))"
    and after_invite: "P d \<Longrightarrow> P (snd (use_invite u code t d))" "P d \<Longrightarrow> P (snd (insert_invite code u t d))"
    and after_session: "P d \<Longrightarrow> P (snd (insert_session sid u t d))" "P d \<Longrightarrow> P (snd (set_joiner u sid d))"
    and after_config: "P d \<Longrightarrow> P (snd (insert_config ky v d))"
    and after_member: "P d \<Longrightarrow> P (snd (upsert_member n k h (role_for cnt) t d))" "P d \<Longrightarrow> P (snd (delete_member n d))"
    and after_message: "P d \<Longrightarrow> P (snd (insert_message n y ts d))" "P d \<Longrightarrow> P (snd (prune_messages lim d))"
begin

abbreviation kept :: "app_state \<Rightarrow> bool" where "kept s \<equiv> P (pool s)"

lemma after_reads: "P d \<Longrightarrow> P (snd (query f d))" "P d \<Longrightarrow> P (snd (select_online_by_ip c i d))" "P d \<Longrightarrow> P (snd (search_users pat d))"
  by (simp_all add: select_online_by_ip_def search_users_def split: option.split)

lemmas keeps = after_user after_presence after_token after_upsert after_touch after_delete after_evict after_invite
  after_session after_config after_member after_message after_reads

lemma kept_sql: "(\<And>s d. P d \<Longrightarrow> P (snd (f s d))) \<Longrightarrow> safe kept (sql f)"
  by (rule safe_sql_db)

lemma kept_sections:
  "safe kept (limit_register ip)" "safe kept (limit_lookup ip')" "safe kept (expires_at E c)" "safe kept (init_session sid r)"
  "safe kept (drop_init sid)" "safe kept (retain_init now grace)" "safe kept (retain_pending now grace)" "safe kept (broadcast f)"
  "safe kept (connect u)" "safe kept (disconnect u)" "safe kept (on_upgrade t)" "safe kept (new_arc h)" "safe kept (put_pending sid p)"
  "safe kept (atomic (\<lambda>s. map_prod Inr id (take_pending hash sid s)))"
  unfolding limit_register_def limit_lookup_def expires_at_def relay_sections broadcast_def connect_def disconnect_def take_pending_def
  by (intro safe_rules safe_atomic; simp split: prod.split option.split)+

lemma kept_auth: "safe kept (resolve_token E hs)" "safe kept (resolve_member E hs)" "safe kept get_member_count"
  unfolding resolve_token_def resolve_member_def get_member_count_def select_token_def select_member_def count_members_def
  by (intro safe_rules kept_sql keeps; assumption)+

lemma kept_discovery:
  "safe kept (info E)" "safe kept (register E rnd peer rq)" "safe kept (lookup E peer name)" "safe kept (search E q)"
  "safe kept (update_presence E hs rq')" "safe kept (heartbeat E hs)" "safe kept (unregister E hs)"
  "safe kept (token_refresh E rnd hs)" "safe kept (invite_create E r hs)"
  unfolding info_def count_users_def count_online_def register_def register_write_def check_version_def check_invite_def
    select_open_invite_def select_user_by_lc_def check_username_def check_pubkey_def check_ip_def check_email_def
    check_max_users_def lookup_def select_lookup_def search_def update_presence_def heartbeat_def unregister_def
    token_refresh_def count_tokens_def issue_token_def invite_create_def Let_def
  by (intro safe_rules kept_auth kept_sections kept_sql keeps; assumption)+

lemma kept_group:
  "safe kept group_info" "safe kept (group_join E key secret nonce rnd join_rq)" "safe kept (group_leave E hs)"
  "safe kept (group_members E hs)" "safe kept (group_history E hs)" "safe kept (group_ws E token)"
  "safe kept (group_text E u r t)" "safe kept (history_frames E)"
  unfolding group_info_def count_members_def group_join_def check_members_def member_key_def get_or_create_group_key_def
    select_config_def encrypt_group_key_def Let_def group_leave_def group_members_def list_members_def group_history_def
    select_history_def group_ws_def select_member_def group_text_def post_message_def history_frames_def
  by (intro safe_rules kept_auth kept_sections kept_sql keeps; assumption)+

lemma kept_relay:
  "safe kept (relay_create E uuid ra rb hs)" "safe kept (relay_join E hs sid)" "safe kept (relay_ws E sid token)" "safe kept cleanup_pass"
  unfolding relay_create_def check_sessions_def open_session_def relay_join_def relay_ws_def cleanup_pass_def Let_def
  by (intro safe_rules kept_auth kept_sections kept_sql keeps; assumption)+

lemma kept_served: "served E m p \<or> background E m p \<Longrightarrow> safe kept p"
proof -
  assume "served E m p \<or> background E m p"
  then show ?thesis
  proof (cases rule: served_cases)
    case (request e)
    then show ?thesis by cases (simp_all add: kept_discovery kept_group kept_relay)
  next
    case task
    then show ?thesis by cases (simp_all add: detached_def safe_pmap kept_group kept_relay kept_sections)
  qed
qed

lemma kept_always: "server_reach E c d m (s, ps) \<Longrightarrow> P d \<Longrightarrow> P (pool s)"
  by (rule server_invariant [OF _ _ kept_served])

end

end
