(* ===== verification/Directory_Steps.thy ===== *)
theory Directory_Steps
  imports Directory_Spec Statement_Rules
begin

text \<open>
  The abstract directory as a concurrent object. The locale \<open>table_property\<close> is what a property of the tables of
  accounts needs to survive each statement, and so to hold at every moment of the whole server.
  \<open>directory_step\<close> is the transition system of the directory, one operation on one account per statement, and the
  locale is interpreted on being reachable by it: a simulation of the server by the specification.
\<close>

section \<open>Invariants of the tables\<close>

text \<open>The statements on the other tables.\<close>

definition same_accounts :: "db \<Rightarrow> db \<Rightarrow> bool" where
  "same_accounts d d' \<longleftrightarrow> users d' = users d \<and> presence d' = presence d \<and> tokens d' = tokens d"

lemma same_accounts_stmts:
  "same_accounts d (snd (use_invite u code t d))" "same_accounts d (snd (insert_invite code u t d))"
  "same_accounts d (snd (insert_session sid u t d))" "same_accounts d (snd (set_joiner u sid d))"
  "same_accounts d (snd (insert_config ky v d))" "same_accounts d (snd (upsert_member n k h r t d))"
  "same_accounts d (snd (delete_member n d))" "same_accounts d (snd (insert_message u' x ts d))"
  "same_accounts d (snd (prune_messages lim d))"
  by (simp_all add: same_accounts_def use_invite_def insert_invite_def insert_session_def set_joiner_def
      insert_config_def upsert_member_def delete_member_def insert_message_def prune_messages_def Let_def)

text \<open>A property of these three tables has laws to meet for the statements on them only.\<close>

locale table_property =
  fixes P :: "db \<Rightarrow> bool"
  assumes law_user: "P d \<Longrightarrow> P (snd (insert_user n l k e t d))"
    and law_presence: "P d \<Longrightarrow> P (snd (insert_presence u ip port t d))"
    and law_token: "P d \<Longrightarrow> P (snd (insert_token u h x t d))"
    and law_upsert: "P d \<Longrightarrow> P (snd (upsert_presence u ip port t d))"
    and law_touch: "P d \<Longrightarrow> P (snd (touch_presence u t d))"
    and law_delete: "P d \<Longrightarrow> P (snd (delete_user u d))"
    and law_evict: "P d \<Longrightarrow> P (snd (delete_oldest_token u d))"
    and other_tables: "P d \<Longrightarrow> db_ok d' \<Longrightarrow> same_accounts d d' \<Longrightarrow> P d'"
    and schema: "P d \<Longrightarrow> db_ok d"
begin

lemma law_others:
  "P d \<Longrightarrow> P (snd (use_invite u code t d))" "P d \<Longrightarrow> P (snd (insert_invite code u t d))"
  "P d \<Longrightarrow> P (snd (insert_session sid u t d))" "P d \<Longrightarrow> P (snd (set_joiner u sid d))"
  "P d \<Longrightarrow> P (snd (insert_config ky v d))" "P d \<Longrightarrow> P (snd (upsert_member n k h r t d))"
  "P d \<Longrightarrow> P (snd (delete_member n d))" "P d \<Longrightarrow> P (snd (insert_message u' x ts d))" "P d \<Longrightarrow> P (snd (prune_messages lim d))"
  by - (rule other_tables, assumption, rule db_rules, erule schema, rule same_accounts_stmts)+

end

sublocale table_property \<subseteq> statement_property P
  by unfold_locales
    (fact law_user law_presence law_token law_upsert law_touch law_delete law_evict law_others)+

section \<open>The directory, one step at a time\<close>

text \<open>One statement: an operation on one account.\<close>

inductive directory_step :: "directory \<Rightarrow> directory \<Rightarrow> bool" where
  open_account: "D lc = None \<Longrightarrow> ac_addr a = None \<Longrightarrow> ac_tokens a = [] \<Longrightarrow> directory_step D (spec_register lc a D)"
| set_address: "D lc = Some a \<Longrightarrow> directory_step D (spec_update addr lc D)"
| see_account: "D lc = Some a \<Longrightarrow> directory_step D (spec_heartbeat now lc D)"
| add_token: "D lc = Some a \<Longrightarrow> (\<And>lc' b. D lc' = Some b \<Longrightarrow> fst t \<notin> fst ` set (ac_tokens b)) \<Longrightarrow>
    directory_step D (on_account (\<lambda>a. a\<lparr>ac_tokens := ac_tokens a @ [t]\<rparr>) lc D)"
| evict_token: "D lc = Some a \<Longrightarrow> directory_step D (on_account (\<lambda>a. a\<lparr>ac_tokens := evict_oldest (ac_tokens a)\<rparr>) lc D)"
| close_account: "D lc = Some a \<Longrightarrow> directory_step D (spec_unregister lc D)"

lemma directory_frame: "same_accounts d d' \<Longrightarrow> directory d' = directory d"
  by (rule ext) (simp add: same_accounts_def directory_def account_of_def [abs_def] tokens_of_def)

text \<open>A statement about a user that is not there changes none of the three tables.\<close>

lemma no_user:
  assumes "db_ok d" "uid \<notin> user_ids d"
  shows "directory (snd (insert_presence uid ip port t d)) = directory d" "directory (snd (insert_token uid h x t d)) = directory d"
    "directory (snd (upsert_presence uid ip port t d)) = directory d" "directory (snd (touch_presence uid t d)) = directory d"
    "directory (snd (delete_user uid d)) = directory d" "directory (snd (delete_oldest_token uid d)) = directory d"
proof -
  have p: "p_user p \<noteq> uid" if "p \<in> set (presence d)" for p using assms that by (auto simp: db_ok_def presence_ok_def)
  have t: "t_user x \<noteq> uid" if "x \<in> set (tokens d)" for x using assms that by (auto simp: db_ok_def tokens_ok_def)
  have u: "u_id x \<noteq> uid" if "x \<in> set (users d)" for x using assms(2) that by (auto simp: user_ids_def)
  have "filter (\<lambda>t. t_user t = uid) (tokens d) = []" using t by (simp add: filter_empty_conv)
  then have "oldest_token uid d = None" by (simp add: oldest_token_def)
  moreover have "map (\<lambda>q. if p_user q = uid then f q else q) (presence d) = presence d" for f
    using p by (simp add: map_idI)
  moreover have "filter (\<lambda>x. u_id x \<noteq> uid) (users d) = users d" "filter (\<lambda>q. p_user q \<noteq> uid) (presence d) = presence d"
    "filter (\<lambda>x. t_user x \<noteq> uid) (tokens d) = tokens d" using p t u by (simp_all add: filter_id_conv)
  ultimately show "directory (snd (insert_presence uid ip port t d)) = directory d" "directory (snd (insert_token uid h x t d)) = directory d"
    "directory (snd (upsert_presence uid ip port t d)) = directory d" "directory (snd (touch_presence uid t d)) = directory d"
    "directory (snd (delete_user uid d)) = directory d" "directory (snd (delete_oldest_token uid d)) = directory d"
    using p assms(2)
    by (auto simp: insert_presence_def insert_token_def upsert_presence_def touch_presence_def delete_user_def
        delete_oldest_token_def same_accounts_def intro!: directory_frame)
qed


text \<open>A statement about a user that is there is one operation on their account.\<close>

lemma user_there: "uid \<in> user_ids d \<Longrightarrow> \<exists>u \<in> set (users d). u_id u = uid"
  by (auto simp: user_ids_def)

lemma step_user:
  assumes "db_ok d"
  shows "directory_step\<^sup>=\<^sup>= (directory d) (directory (snd (insert_user name lc pubkey email now d)))"
proof (cases "name \<in> u_name ` set (users d) \<or> lc \<in> u_lc ` set (users d)")
  case True
  then show ?thesis by (auto simp: insert_user_def)
next
  case False
  let ?u = "\<lparr>u_id = Suc (user_seq d), u_name = name, u_lc = lc, u_pubkey = pubkey, u_email = email, u_created = now\<rparr>"
  let ?a = "\<lparr>ac_name = name, ac_pubkey = pubkey, ac_email = email, ac_addr = None, ac_tokens = []\<rparr>"
  let ?d = "d\<lparr>users := users d @ [?u], user_seq := Suc (user_seq d)\<rparr>"
  have d: "snd (insert_user name lc pubkey email now d) = ?d" using False by (auto simp: insert_user_def Let_def)
  have none: "List.find (\<lambda>u. u_lc u = lc) (users d) = None" using False by (auto simp: find_None_iff image_iff)
  have "p_user p \<noteq> Suc (user_seq d)" if "p \<in> set (presence d)" for p using fresh_user_id [OF assms] that by (auto simp: image_iff)
  then have new: "account_of ?d ?u = ?a"
    using fresh_user_id [OF assms] assms
    by (auto simp: account_of_def tokens_of_def filter_empty_conv find_None_iff db_ok_def tokens_ok_def)
  have "account_of ?d = account_of d" by (rule ext) (simp add: account_of_def tokens_of_def)
  then have "directory ?d = spec_register lc ?a (directory d)"
    using none new by (auto simp: directory_def spec_register_def fun_eq_iff find_append split: option.split)
  moreover have "directory d lc = None" using none by (simp add: directory_def)
  ultimately show ?thesis unfolding d by (auto intro: open_account)
qed

lemma step_address:
  assumes "db_ok d"
  shows "directory_step\<^sup>=\<^sup>= (directory d) (directory (snd (upsert_presence uid ip port now d)))"
    "directory_step\<^sup>=\<^sup>= (directory d) (directory (snd (insert_presence uid ip port now d)))"
    "directory_step\<^sup>=\<^sup>= (directory d) (directory (snd (touch_presence uid now d)))"
proof -
  show "directory_step\<^sup>=\<^sup>= (directory d) (directory (snd (upsert_presence uid ip port now d)))" (is "?U")
  proof (cases "uid \<in> user_ids d")
    case True
    then obtain u where "u \<in> set (users d)" "u_id u = uid" using user_there by blast
    with directory_update [OF assms, of u] directory_user [OF assms, of u] show ?thesis by (auto intro: set_address)
  qed (simp add: no_user [OF assms])
  then show "directory_step\<^sup>=\<^sup>= (directory d) (directory (snd (insert_presence uid ip port now d)))"
    by (cases "uid \<in> p_user ` set (presence d)") (auto simp: upsert_presence_def insert_presence_def split: if_splits)
  show "directory_step\<^sup>=\<^sup>= (directory d) (directory (snd (touch_presence uid now d)))"
  proof (cases "uid \<in> user_ids d")
    case True
    then obtain u where "u \<in> set (users d)" "u_id u = uid" using user_there by blast
    with directory_heartbeat [OF assms, of u] directory_user [OF assms, of u] show ?thesis by (auto intro: see_account)
  qed (simp add: no_user [OF assms])
qed

lemma step_close:
  assumes "db_ok d"
  shows "directory_step\<^sup>=\<^sup>= (directory d) (directory (snd (delete_user uid d)))"
proof (cases "uid \<in> user_ids d")
  case True
  then obtain u where "u \<in> set (users d)" "u_id u = uid" using user_there by blast
  with directory_unregister [OF assms, of u] directory_user [OF assms, of u] show ?thesis by (auto intro: close_account)
qed (simp add: no_user [OF assms])

lemma step_token:
  assumes "db_ok d"
  shows "directory_step\<^sup>=\<^sup>= (directory d) (directory (snd (insert_token uid h x now d)))"
proof (cases "uid \<in> user_ids d \<and> h \<notin> t_hash ` set (tokens d)")
  case True
  then obtain u where u: "u \<in> set (users d)" "u_id u = uid" using user_there by blast
  let ?d = "snd (insert_token uid h x now d)"
  have "directory ?d = on_account (\<lambda>a. a\<lparr>ac_tokens := ac_tokens a @ [(h, now, x)]\<rparr>) (u_lc u) (directory d)"
    by (rule directory_on [OF assms u(1)])
      (use True u(2) in \<open>auto simp: insert_token_def Let_def account_of_def tokens_of_def token_entry_def\<close>)
  moreover have "h \<notin> fst ` set (ac_tokens b)" if "directory d lc = Some b" for lc b
    using that True by (auto simp: directory_def account_of_def tokens_of_def token_entry_def image_iff)
  ultimately show ?thesis
    using add_token [of "directory d" "u_lc u" _ "(h, now, x)"] directory_user [OF assms u(1)] by auto
next
  case False
  then show ?thesis using no_user(2) [OF assms, of uid] by (auto simp: insert_token_def)
qed

lemma step_evict:
  assumes "db_ok d"
  shows "directory_step\<^sup>=\<^sup>= (directory d) (directory (snd (delete_oldest_token uid d)))"
proof (cases "uid \<in> user_ids d")
  case True
  then obtain u where u: "u \<in> set (users d)" "u_id u = uid" using user_there by blast
  let ?d = "snd (delete_oldest_token uid d)"
  have "directory ?d = on_account (\<lambda>a. a\<lparr>ac_tokens := evict_oldest (ac_tokens a)\<rparr>) (u_lc u) (directory d)"
  proof (rule directory_on [OF assms u(1)])
    show "users ?d = users d" by (simp add: delete_oldest_token_def)
    show "account_of ?d u = account_of d u\<lparr>ac_tokens := evict_oldest (ac_tokens (account_of d u))\<rparr>"
      using evict_tokens [OF assms, of uid] u(2) by (simp add: account_of_def) (simp add: delete_oldest_token_def)
    show "account_of ?d v = account_of d v" if "u_id v \<noteq> u_id u" for v
      using other_tokens [OF assms, of "u_id v" uid] that u(2) by (simp add: account_of_def) (simp add: delete_oldest_token_def)
  qed
  then show ?thesis using directory_user [OF assms u(1)] by (auto intro: evict_token)
qed (simp add: no_user [OF assms])

text \<open>What is reached by steps stays reached: the server is an implementation of \<open>directory_step\<close>.\<close>

interpretation directory: table_property "\<lambda>d. db_ok d \<and> directory_step\<^sup>*\<^sup>* D0 (directory d)" for D0
proof
  have more: "directory_step\<^sup>*\<^sup>* D0 D'" if "directory_step\<^sup>*\<^sup>* D0 D" "directory_step\<^sup>=\<^sup>= D D'" for D D'
    using that by auto
  fix d n l k e t u ip port h x d'
  assume d: "db_ok d \<and> directory_step\<^sup>*\<^sup>* D0 (directory d)"
  note ok = conjunct1 [OF d] and steps = more [OF conjunct2 [OF d]]
  show "db_ok (snd (insert_user n l k e t d)) \<and> directory_step\<^sup>*\<^sup>* D0 (directory (snd (insert_user n l k e t d)))"
    using ok steps [OF step_user [OF ok]] by (simp add: db_rules)
  show "db_ok (snd (insert_presence u ip port t d)) \<and> directory_step\<^sup>*\<^sup>* D0 (directory (snd (insert_presence u ip port t d)))"
    using ok steps [OF step_address(2) [OF ok]] by (simp add: db_rules)
  show "db_ok (snd (insert_token u h x t d)) \<and> directory_step\<^sup>*\<^sup>* D0 (directory (snd (insert_token u h x t d)))"
    using ok steps [OF step_token [OF ok]] by (simp add: db_rules)
  show "db_ok (snd (upsert_presence u ip port t d)) \<and> directory_step\<^sup>*\<^sup>* D0 (directory (snd (upsert_presence u ip port t d)))"
    using ok steps [OF step_address(1) [OF ok]] by (simp add: db_rules)
  show "db_ok (snd (touch_presence u t d)) \<and> directory_step\<^sup>*\<^sup>* D0 (directory (snd (touch_presence u t d)))"
    using ok steps [OF step_address(3) [OF ok]] by (simp add: db_rules)
  show "db_ok (snd (delete_user u d)) \<and> directory_step\<^sup>*\<^sup>* D0 (directory (snd (delete_user u d)))"
    using ok steps [OF step_close [OF ok]] by (simp add: db_rules)
  show "db_ok (snd (delete_oldest_token u d)) \<and> directory_step\<^sup>*\<^sup>* D0 (directory (snd (delete_oldest_token u d)))"
    using ok steps [OF step_evict [OF ok]] by (simp add: db_rules)
  show "db_ok d' \<and> directory_step\<^sup>*\<^sup>* D0 (directory d')" if "db_ok d'" "same_accounts d d'"
    using that d directory_frame [OF that(2)] by simp
  show "db_ok d" by (rule ok)
qed

text \<open>No token belongs to two accounts: an invariant of the abstract directory.\<close>

definition apart :: "directory \<Rightarrow> bool" where
  "apart D \<longleftrightarrow> (\<forall>lc lc' a b. D lc = Some a \<longrightarrow> D lc' = Some b \<longrightarrow> lc \<noteq> lc' \<longrightarrow>
     fst ` set (ac_tokens a) \<inter> fst ` set (ac_tokens b) = {})"

lemma evict_subset: "set (evict_oldest ts) \<subseteq> set ts"
  by (auto simp: evict_oldest_def split: list.splits)

lemma apartD:
  "apart D \<Longrightarrow> D lc = Some a \<Longrightarrow> D lc' = Some b \<Longrightarrow> lc' \<noteq> lc \<Longrightarrow> fst ` set (ac_tokens a) \<inter> fst ` set (ac_tokens b) = {}"
  unfolding apart_def by blast

lemma apart_on:
  assumes "apart D" "D lc = Some a"
    and "\<And>lc' b. lc' \<noteq> lc \<Longrightarrow> D lc' = Some b \<Longrightarrow> fst ` set (ac_tokens (f a)) \<inter> fst ` set (ac_tokens b) = {}"
  shows "apart (on_account f lc D)"
  unfolding apart_def
proof (intro allI impI)
  fix l l' x y
  assume D: "on_account f lc D l = Some x" "on_account f lc D l' = Some y" "l \<noteq> l'"
  consider "l = lc" | "l' = lc" | "l \<noteq> lc" "l' \<noteq> lc" by blast
  then show "fst ` set (ac_tokens x) \<inter> fst ` set (ac_tokens y) = {}"
  proof cases
    case 1
    then show ?thesis using D assms(2) assms(3) [of l' y] by (simp add: on_account_def)
  next
    case 2
    then show ?thesis using D assms(2) assms(3) [of l x] by (simp add: on_account_def Int_commute)
  next
    case 3
    then show ?thesis using D assms(1) unfolding apart_def by (simp add: on_account_def)
  qed
qed

lemma apart_fewer:
  assumes "apart D" "D lc = Some a" "set (ac_tokens (f a)) \<subseteq> set (ac_tokens a)"
  shows "apart (on_account f lc D)"
proof (rule apart_on [OF assms(1,2)])
  fix lc' b assume "lc' \<noteq> lc" "D lc' = Some b"
  then have b: "fst ` set (ac_tokens a) \<inter> fst ` set (ac_tokens b) = {}" using apartD [OF assms(1,2)] by simp
  have "fst ` set (ac_tokens (f a)) \<subseteq> fst ` set (ac_tokens a)" using assms(3) by (rule image_mono)
  then show "fst ` set (ac_tokens (f a)) \<inter> fst ` set (ac_tokens b) = {}" using b by (simp add: disjoint_iff subset_iff)
qed

lemma step_apart: "directory_step D D' \<Longrightarrow> apart D \<Longrightarrow> apart D'"
proof (induction rule: directory_step.induct)
  case (open_account D lc a)
  then show ?case by (auto simp: apart_def spec_register_def)
next
  case (set_address D lc a addr)
  then show ?case unfolding spec_update_def by (intro apart_fewer) simp_all
next
  case (see_account D lc a now)
  then show ?case unfolding spec_heartbeat_def by (intro apart_fewer) simp_all
next
  case (add_token D lc a t)
  show ?case
  proof (rule apart_on [OF add_token(3,1)])
    fix lc' b assume b: "lc' \<noteq> lc" "D lc' = Some b"
    then have "fst ` set (ac_tokens a) \<inter> fst ` set (ac_tokens b) = {}" using apartD [OF add_token(3,1)] by simp
    with add_token(2) [OF b(2)] show "fst ` set (ac_tokens (a\<lparr>ac_tokens := ac_tokens a @ [t]\<rparr>)) \<inter> fst ` set (ac_tokens b) = {}"
      by simp
  qed
next
  case (evict_token D lc a)
  then show ?case using evict_subset by (intro apart_fewer) simp_all
next
  case (close_account D lc a)
  then show ?case by (auto simp: apart_def spec_unregister_def)
qed

text \<open>C5. The abstract directory describes discovery under any load: in every interleaving of requests and tasks, with
  failing statements among them, the server moves the map by opening an account under a free name, setting or
  refreshing an address, adding a fresh token to an account, evicting its oldest, or closing it, one account at a
  time, and by nothing else. Hence, for one, a token never belongs to two accounts.\<close>

theorem directory_always:
  assumes "server_reach E c d m (s, ps)" "db_ok d"
  shows "directory_step\<^sup>*\<^sup>* (directory d) (directory (pool s)) \<and> (apart (directory d) \<longrightarrow> apart (directory (pool s)))"
proof -
  have steps: "directory_step\<^sup>*\<^sup>* (directory d) (directory (pool s))"
    using directory.kept_always [OF assms(1), of "directory d"] assms(2) by simp
  moreover have "apart D' \<Longrightarrow> apart D''" if "directory_step\<^sup>*\<^sup>* D' D''" for D' D''
    using that by (induction rule: rtranclp_induct) (simp_all add: step_apart)
  ultimately show ?thesis using \<open>directory_step\<^sup>*\<^sup>* (directory d) (directory (pool s))\<close> by simp
qed

theorem directory_always_witness:
  "\<exists>s ps. server_reach sample_ext sample_config sample_db ''discovery'' (s, ps) \<and> directory (pool s) ''vasya'' = None \<and>
     directory_step\<^sup>*\<^sup>* (directory sample_db) (directory (pool s))"
proof -
  let ?s = "sample_home\<lparr>pool := snd (delete_user 1 sample_db)\<rparr>"
  have start: "server_reach sample_ext sample_config sample_db ''discovery'' (sample_home, [])"
    unfolding sample_home_new by (rule server_start)
  have "served sample_ext ''discovery'' (unregister sample_ext (bearer sample_token))"
    unfolding served_def by (intro exI [of _ "(''DELETE'', ''/unregister'')"] exI [of _ Unregister] conjI h_unregister)
      (simp add: build_router_def discovery_routes_def)
  moreover have "run (unregister sample_ext (bearer sample_token)) sample_home = (Inr no_content, ?s)"
    using run_unregister [OF _ sample_auth] by simp
  ultimately obtain ps where reach: "server_reach sample_ext sample_config sample_db ''discovery'' (?s, ps)"
    using server_request [OF start] by blast
  have "directory (snd (delete_user 1 sample_db)) ''vasya'' = None"
    using directory_unregister [OF sample_db_ok, of "sample_user 1 ''vasya''"]
    by (simp add: sample_db_simps) (simp add: sample_user_def spec_unregister_def)
  with directory_always [OF reach sample_db_ok] reach show ?thesis by (intro exI [of _ ?s] exI [of _ ps]) simp
qed

end
