(* ===== verification/Process_Rules.thy ===== *)
theory Process_Rules
  imports Prelude "HOL-Library.Multiset"
begin

text \<open>
  Three more ways to reason about every interleaving of processes, beside the invariants of \<open>Prelude\<close>.
  \<open>yields I Q p\<close>: whenever the sections of \<open>p\<close> start in states that satisfy \<open>I\<close>, they keep \<open>I\<close> and the result
  satisfies \<open>Q\<close>. \<open>foresees I Q p\<close> asks this only of executions in which \<open>I\<close> holds before and after each section,
  so that \<open>I\<close> may speak of how the execution ends. \<open>carries held bound Q p R\<close>: \<open>p\<close> may put into the state, or return, only the objects \<open>R\<close> it owns,
  those it takes out of the state and those it makes, where \<open>held\<close> counts the objects the state holds and
  \<open>bound\<close> is the counter new ones are numbered by; if every process carries only what is its own, nothing is ever held twice.
\<close>

section \<open>Results under an invariant\<close>

primrec yields :: "('s \<Rightarrow> bool) \<Rightarrow> ('r \<Rightarrow> bool) \<Rightarrow> ('s, 'r) proc \<Rightarrow> bool" where
  "yields I Q (Ret r) = Q r"
| "yields I Q (Act g) = (\<forall>s. I s \<longrightarrow> I (fst (g s)) \<and> snd (map_prod id (yields I Q) (g s)))"

lemma yields_Act: "yields I Q (Act g) \<longleftrightarrow> (\<forall>s. I s \<longrightarrow> I (fst (g s)) \<and> yields I Q (snd (g s)))"
  by simp

declare yields.simps(2) [simp del]

lemma yields_pbind:
  assumes "yields I P p" "\<And>a. P (Inr a) \<Longrightarrow> yields I Q (f a)" "\<And>e. P (Inl e) \<Longrightarrow> Q (Inl e)"
  shows "yields I Q (pbind p f)"
  using assms(1)
proof (induction p)
  case (Ret r)
  then show ?case using assms(2,3) by (cases r) auto
next
  case (Act g)
  then show ?case by (simp add: yields_Act)
qed

lemma yields_pmap: "yields I (\<lambda>r. Q (h r)) p \<Longrightarrow> yields I Q (pmap h p)"
proof (induction p)
  case (Act g)
  then show ?case by (simp add: yields_Act)
qed simp

lemma yields_mono: "yields I P p \<Longrightarrow> (\<And>r. P r \<Longrightarrow> Q r) \<Longrightarrow> yields I Q p"
proof (induction p)
  case (Act g)
  then show ?case by (simp add: yields_Act)
qed simp

lemma yields_atomic: "(\<And>s. I s \<Longrightarrow> I (snd (m s)) \<and> Q (fst (m s))) \<Longrightarrow> yields I Q (atomic m)"
  unfolding atomic_def yields_Act by (auto split: prod.splits) (metis fst_conv snd_conv)+

lemma sched_yields:
  assumes "sched_reach env req s0 (s, ps)" "I s0"
    and req: "\<And>p. req p \<Longrightarrow> yields I Q p"
    and env: "\<And>s s'. I s \<Longrightarrow> env s s' \<Longrightarrow> I s'"
  shows "I s \<and> (\<forall>p \<in> set ps. yields I Q p)"
proof -
  have "I (fst c) \<and> (\<forall>p \<in> set (snd c). yields I Q p)" if "sched_reach env req s0 c" for c
    using that
  proof (induction rule: sched_reach.induct)
    case reach_start
    then show ?case using assms(2) by simp
  next
    case (reach_step c c')
    from reach_step.hyps(2) reach_step.IH show ?case
    proof (induction rule: sched.induct)
      case (sched_act i ps g s)
      then have "yields I Q (Act g)" by (metis nth_mem snd_conv)
      with sched_act show ?case
        by (auto simp: yields_Act dest!: set_update_subset_insert [THEN subsetD])
    qed (use req env in auto)
  qed
  from this [OF assms(1)] show ?thesis by simp
qed

section \<open>Results in hindsight\<close>

text \<open>
  \<open>foresees I Q p\<close>: if \<open>I\<close> holds at every moment at which \<open>p\<close> moves, before and after, its result satisfies \<open>Q\<close>. Where \<open>I\<close>
  speaks of the state at the end of an execution and holds at every earlier moment for that reason, this says what
  the results have to do with that last state.
\<close>

primrec foresees :: "('s \<Rightarrow> bool) \<Rightarrow> ('r \<Rightarrow> bool) \<Rightarrow> ('s, 'r) proc \<Rightarrow> bool" where
  "foresees I Q (Ret r) = Q r"
| "foresees I Q (Act g) = (\<forall>s. I s \<longrightarrow> I (fst (g s)) \<longrightarrow> snd (map_prod id (foresees I Q) (g s)))"

lemma foresees_Act: "foresees I Q (Act g) \<longleftrightarrow> (\<forall>s. I s \<longrightarrow> I (fst (g s)) \<longrightarrow> foresees I Q (snd (g s)))"
  by simp

declare foresees.simps(2) [simp del]

lemma foresees_pbind:
  assumes "foresees I P p" "\<And>a. P (Inr a) \<Longrightarrow> foresees I Q (f a)" "\<And>e. P (Inl e) \<Longrightarrow> Q (Inl e)"
  shows "foresees I Q (pbind p f)"
  using assms(1)
proof (induction p)
  case (Ret r)
  then show ?case using assms(2,3) by (cases r) auto
next
  case (Act g)
  then show ?case by (simp add: foresees_Act)
qed

lemma foresees_pmap: "foresees I (\<lambda>r. Q (h r)) p \<Longrightarrow> foresees I Q (pmap h p)"
proof (induction p)
  case (Act g)
  then show ?case by (simp add: foresees_Act)
qed simp

lemma foresees_atomic:
  assumes "\<And>s. I s \<Longrightarrow> I (snd (m s)) \<Longrightarrow> Q (fst (m s))"
  shows "foresees I Q (atomic m)"
  unfolding atomic_def foresees_Act
proof (intro allI impI)
  fix s
  obtain r s' where "m s = (r, s')" by fastforce
  then show "foresees I Q (snd (case m s of (r, s') \<Rightarrow> (s', Ret r)))"
    if "I s" "I (fst (case m s of (r, s') \<Rightarrow> (s', Ret r)))" using that assms [of s] by simp
qed

lemma foresees_True: "foresees I (\<lambda>r. True) p"
proof (induction p)
  case (Act g)
  then show ?case by (simp add: foresees_Act)
qed simp

text \<open>The rest of a process whose first part says nothing.\<close>

lemma foresees_after: "(\<And>a. foresees I Q (f a)) \<Longrightarrow> (\<And>e. Q (Inl e)) \<Longrightarrow> foresees I Q (pbind p f)"
  by (rule foresees_pbind [OF foresees_True])

text \<open>
  \<open>I\<close> holds at the end, and every step takes it backwards. Processes are counted from the end of the pool, where
  arrivals do not shift them.
\<close>

lemma sched_hindsight:
  assumes "(sched env req)\<^sup>*\<^sup>* c c'" "R c" "I (fst c')"
    and step: "\<And>c1 c2. R c1 \<Longrightarrow> sched env req c1 c2 \<Longrightarrow> R c2 \<and> (I (fst c2) \<longrightarrow> I (fst c1))"
    and "j < length (snd c)" "foresees I Q (rev (snd c) ! j)" "rev (snd c') ! j = Ret r"
  shows "Q r"
proof -
  have "I (fst c) \<and> (\<forall>j < length (snd c). foresees I Q (rev (snd c) ! j) \<longrightarrow> foresees I Q (rev (snd c') ! j))"
    using assms(1,2)
  proof (induction rule: converse_rtranclp_induct)
    case base
    then show ?case using assms(3) by simp
  next
    case (step c1 c2)
    then have now: "I (fst c2)" "I (fst c1)" and later: "\<And>j. j < length (snd c2) \<Longrightarrow>
        foresees I Q (rev (snd c2) ! j) \<Longrightarrow> foresees I Q (rev (snd c') ! j)" using assms(4) by auto
    from step(1) now have "length (snd c1) \<le> length (snd c2) \<and>
        (\<forall>j < length (snd c1). foresees I Q (rev (snd c1) ! j) \<longrightarrow> foresees I Q (rev (snd c2) ! j))"
    proof cases
      case (sched_act i ps g s)
      have "foresees I Q (rev (ps[i := snd (g s)]) ! j)" if "j < length ps" "foresees I Q (rev ps ! j)" for j
      proof (cases "j = length ps - Suc i")
        case True
        with that sched_act have "foresees I Q (Act g)" by (simp add: rev_nth)
        then have "foresees I Q (snd (g s))" using now sched_act by (simp add: foresees_Act)
        then show ?thesis using True sched_act by (simp add: rev_nth)
      next
        case False
        then show ?thesis using that sched_act by (auto simp: rev_nth nth_list_update)
      qed
      then show ?thesis using sched_act by simp
    qed (auto simp: nth_append)
    then show ?case using now later by (meson order.strict_trans2)
  qed
  with assms(5-7) show ?thesis by auto
qed

section \<open>Owning what is in flight\<close>

primrec carries :: "('s \<Rightarrow> nat multiset) \<Rightarrow> ('s \<Rightarrow> nat) \<Rightarrow> ('r \<Rightarrow> nat multiset) \<Rightarrow> ('s, 'r) proc \<Rightarrow> nat multiset \<Rightarrow> bool" where
  "carries held bound Q (Ret r) = (\<lambda>R. Q r \<subseteq># R)"
| "carries held bound Q (Act g) = (\<lambda>R. \<forall>s. \<exists>R'.
     bound s \<le> bound (fst (g s)) \<and> held (fst (g s)) + R' \<subseteq># held s + R + mset_set {bound s..<bound (fst (g s))} \<and>
     snd (map_prod id (carries held bound Q) (g s)) R')"

lemma carries_Act: "carries held bound Q (Act g) R \<longleftrightarrow> (\<forall>s. \<exists>R'.
     bound s \<le> bound (fst (g s)) \<and> held (fst (g s)) + R' \<subseteq># held s + R + mset_set {bound s..<bound (fst (g s))} \<and>
     carries held bound Q (snd (g s)) R')"
  by simp

declare carries.simps(2) [simp del]

lemma carries_more: "carries held bound Q p R \<Longrightarrow> R \<subseteq># R' \<Longrightarrow> carries held bound Q p R'"
proof (cases p)
  case (Act g)
  assume own: "carries held bound Q p R" and le: "R \<subseteq># R'"
  have "held s + R + mset_set {n..<m} \<subseteq># held s + R' + mset_set {n..<m}" for s n m using le by simp
  then show ?thesis using own unfolding Act carries_Act by (meson subset_mset.order_trans)
qed (auto intro: subset_mset.order_trans)

lemma carries_pbind:
  assumes "carries held bound Q p R" "\<And>a. carries held bound Q' (f a) (Q (Inr a))" "\<And>e. Q' (Inl e) = {#}"
  shows "carries held bound Q' (pbind p f) R"
  using assms(1)
proof (induction p arbitrary: R)
  case (Ret r)
  then show ?case using carries_more [OF assms(2)] assms(3) by (cases r) auto
next
  case (Act g)
  then show ?case unfolding pbind.simps carries_Act by (fastforce simp: carries_Act)
qed

lemma carries_pmap: "carries held bound (\<lambda>r. Q (h r)) p R \<Longrightarrow> carries held bound Q (pmap h p) R"
proof (induction p arbitrary: R)
  case (Act g)
  then show ?case unfolding pmap.simps carries_Act by (fastforce simp: carries_Act)
qed simp

lemma carries_pure: "Q (Inr a) \<subseteq># R \<Longrightarrow> carries held bound Q (pure a) R"
  by (simp add: pure_def)

lemma carries_throw: "Q (Inl e) \<subseteq># R \<Longrightarrow> carries held bound Q (throw e) R"
  by (simp add: throw_def)

lemma carries_atomic:
  assumes "\<And>s. bound s \<le> bound (snd (m s))"
    and "\<And>s. held (snd (m s)) + Q (fst (m s)) \<subseteq># held s + R + mset_set {bound s..<bound (snd (m s))}"
  shows "carries held bound Q (atomic m) R"
  unfolding atomic_def carries_Act
proof
  fix s
  obtain r s' where m: "m s = (r, s')" by fastforce
  show "\<exists>R'. bound s \<le> bound (fst (case m s of (r, s') \<Rightarrow> (s', Ret r))) \<and>
      held (fst (case m s of (r, s') \<Rightarrow> (s', Ret r))) + R' \<subseteq>#
        held s + R + mset_set {bound s..<bound (fst (case m s of (r, s') \<Rightarrow> (s', Ret r)))} \<and>
      carries held bound Q (snd (case m s of (r, s') \<Rightarrow> (s', Ret r))) R'"
    using assms [of s] m by (intro exI [of _ "Q r"]) simp
qed

text \<open>A process that neither makes nor moves anything carries what it did before.\<close>

abbreviation shrinks :: "('s \<Rightarrow> nat multiset) \<Rightarrow> ('s \<Rightarrow> nat) \<Rightarrow> 's \<Rightarrow> 's \<Rightarrow> bool" where
  "shrinks held bound s s' \<equiv> held s' \<subseteq># held s \<and> bound s \<le> bound s'"

lemma carries_shrinks:
  assumes "\<And>s0. safe (shrinks held bound s0) p"
  shows "carries held bound (\<lambda>_. R) p R"
  using assms
proof (induction p)
  case (Act g)
  have 1: "shrinks held bound s (fst (g s))" for s using Act.prems [of s] by (simp add: safe_Act)
  have 2: "carries held bound (\<lambda>_. R) (snd (g s)) R" for s using Act by (auto simp: safe_Act)
  have "held (fst (g s)) + R \<subseteq># held s + R + mset_set {bound s..<bound (fst (g s))}" for s
    using 1 [of s] by (intro subset_mset.add_increasing2 subset_mset.add_mono) auto
  with 1 2 show ?case unfolding carries_Act by blast
qed simp

text \<open>A configuration in which everything has one owner at most.\<close>

definition once :: "nat multiset \<Rightarrow> nat \<Rightarrow> bool" where
  "once T n \<longleftrightarrow> (\<forall>a. count T a \<le> (if a < n then 1 else 0))"

lemma once_fewer:
  assumes "once T n" "n \<le> m" "T' \<subseteq># T + mset_set {n..<m}"
  shows "once T' m"
  unfolding once_def
proof
  fix a
  have "count T' a \<le> count T a + count (mset_set {n..<m}) a" using assms(3) by (metis count_union mset_subset_eq_count)
  also have "count (mset_set {n..<m}) a = (if n \<le> a \<and> a < m then 1 else 0)" by (simp add: count_mset_set')
  finally have "count T' a \<le> count T a + (if n \<le> a \<and> a < m then 1 else 0)" .
  moreover have "count T a \<le> (if a < n then 1 else 0)" using assms(1) by (simp add: once_def)
  ultimately show "count T' a \<le> (if a < m then 1 else 0)" using assms(2) by (auto split: if_splits)
qed

definition owned_once :: "('s \<Rightarrow> nat multiset) \<Rightarrow> ('s \<Rightarrow> nat) \<Rightarrow> 's \<times> ('s, 'r) proc list \<Rightarrow> bool" where
  "owned_once held bound c \<longleftrightarrow> (\<exists>Rs. length Rs = length (snd c) \<and>
     (\<forall>i < length Rs. carries held bound (\<lambda>_. {#}) (snd c ! i) (Rs ! i)) \<and>
     once (held (fst c) + sum_list Rs) (bound (fst c)))"

lemma sum_list_split:
  fixes Rs :: "'a multiset list"
  assumes "i < length Rs"
  obtains U where "sum_list Rs = Rs ! i + U" "sum_list (Rs[i := R']) = R' + U"
proof
  show "sum_list Rs = Rs ! i + (sum_list (take i Rs) + sum_list (drop (Suc i) Rs))"
    by (subst id_take_nth_drop [OF assms]) (simp add: ac_simps)
  show "sum_list (Rs[i := R']) = R' + (sum_list (take i Rs) + sum_list (drop (Suc i) Rs))"
    using assms by (simp add: upd_conv_take_nth_drop ac_simps)
qed

lemma owned_once_reach:
  assumes "sched_reach env req s0 c" "held s0 = {#}"
    and "\<And>p. req p \<Longrightarrow> carries held bound (\<lambda>_. {#}) p {#}"
    and "\<And>s s'. env s s' \<Longrightarrow> shrinks held bound s s'"
  shows "owned_once held bound c"
  using assms(1)
proof (induction rule: sched_reach.induct)
  case reach_start
  then show ?case using assms(2) by (simp add: owned_once_def once_def)
next
  case (reach_step c c')
  obtain Rs where Rs: "length Rs = length (snd c)" "\<forall>i < length Rs. carries held bound (\<lambda>_. {#}) (snd c ! i) (Rs ! i)"
    "once (held (fst c) + sum_list Rs) (bound (fst c))"
    using reach_step.IH unfolding owned_once_def by blast
  from reach_step.hyps(2) Rs show ?case
  proof (induction rule: sched.induct)
    case (sched_act i ps g s)
    then have "carries held bound (\<lambda>_. {#}) (Act g) (Rs ! i)" by fastforce
    then obtain R' where R': "bound s \<le> bound (fst (g s))"
      "held (fst (g s)) + R' \<subseteq># held s + Rs ! i + mset_set {bound s..<bound (fst (g s))}"
      "carries held bound (\<lambda>_. {#}) (snd (g s)) R'" unfolding carries_Act by blast
    have i: "i < length Rs" using sched_act by simp
    then obtain U where U: "sum_list Rs = Rs ! i + U" "sum_list (Rs[i := R']) = R' + U" by (rule sum_list_split)
    have "held (fst (g s)) + sum_list (Rs[i := R']) \<subseteq># held s + sum_list Rs + mset_set {bound s..<bound (fst (g s))}"
      using R'(2) unfolding U by (simp add: ac_simps)
    with once_fewer [OF sched_act(5) [unfolded fst_conv] R'(1)]
    show ?case unfolding owned_once_def using sched_act R'(3)
      by (intro exI [of _ "Rs[i := R']"]) (auto simp: nth_list_update)
  next
    case (sched_new p s ps)
    then show ?case unfolding owned_once_def using assms(3)
      by (intro exI [of _ "{#} # Rs"]) (auto simp: less_Suc_eq_0_disj)
  next
    case (sched_env s s' ps)
    then have "held s' + sum_list Rs \<subseteq># held s + sum_list Rs + mset_set {bound s..<bound s'}" "bound s \<le> bound s'"
      using assms(4) [OF sched_env(1)] by (auto intro: subset_mset.order_trans)
    with once_fewer [OF sched_env(4) [unfolded fst_conv]] sched_env show ?case
      unfolding owned_once_def by (intro exI [of _ Rs]) auto
  qed
qed

abbreviation got :: "('a \<Rightarrow> nat multiset) \<Rightarrow> 'e + 'a \<Rightarrow> nat multiset" where
  "got Q r \<equiv> (case r of Inl e \<Rightarrow> {#} | Inr a \<Rightarrow> Q a)"

lemma carries_nothing: "(\<And>s0. safe (shrinks held bound s0) p) \<Longrightarrow> carries held bound (got (\<lambda>_. {#})) p {#}"
proof -
  have "got (\<lambda>_. {#}) = (\<lambda>_. {#})" by (rule ext) (simp split: sum.split)
  then show ?thesis if "\<And>s0. safe (shrinks held bound s0) p" using carries_shrinks [OF that, where R = "{#}"] by simp
qed

lemma carries_on:
  assumes "\<And>s0. safe (shrinks held bound s0) p" "\<And>a. carries held bound (\<lambda>_. {#}) (f a) R"
  shows "carries held bound (\<lambda>_. {#}) (pbind p f) R"
  by (rule carries_pbind [OF carries_shrinks [OF assms(1), where R = R]]) (simp_all add: assms(2))

lemma carries_reads: "carries held bound (\<lambda>_. {#}) (pbind (reads f) k) R" if "\<And>a. carries held bound (\<lambda>_. {#}) (k a) R"
  using that by (rule carries_on [OF safe_reads])

lemma once_distinct: "once (mset xs + T) n \<Longrightarrow> distinct xs \<and> (\<forall>a \<in> set xs. a \<notin># T)"
proof -
  assume o: "once (mset xs + T) n"
  have le: "count (mset xs) a + count T a \<le> 1" for a
  proof -
    have "count (mset xs + T) a \<le> (if a < n then 1 else 0)" using o unfolding once_def by blast
    also have "\<dots> \<le> 1" by simp
    finally show ?thesis by (simp only: count_union)
  qed
  have in_xs: "0 < count (mset xs) a" if "a \<in> set xs" for a using that by (simp add: count_greater_zero_iff)
  have one: "count (mset xs) a = 1 \<and> count T a = 0" if "a \<in> set xs" for a
    using le [of a] in_xs [OF that] by linarith
  moreover have "count (mset xs) a = 0" if "a \<notin> set xs" for a using that by (simp add: count_mset_0_iff)
  ultimately show ?thesis by (simp add: distinct_count_atmost_1 not_in_iff)
qed

end
