(* ===== verification/Group_Key.thy ===== *)
theory Group_Key
  imports Statement_Rules Process_Rules
begin

text \<open>
  The group key under any load: which key a member is given does not depend on who joins at the same time, on the
  statements that fail, or on whether the key was there before. The stored key never changes, so what a join answers is
  judged in hindsight, by the key at the end of the execution.
\<close>

section \<open>One group key\<close>

abbreviation stored_key :: "app_state \<Rightarrow> string option" where
  "stored_key s \<equiv> map_of (gconfig (pool s)) ''group_key''"

text \<open>Once stored the key is never changed.\<close>

interpretation group_key: statement_property "\<lambda>d. map_of (gconfig d) ''group_key'' = Some k" for k
  by unfold_locales (simp_all add: insert_user_def insert_presence_def insert_token_def upsert_presence_def touch_presence_def
      delete_user_def delete_oldest_token_def use_invite_def insert_invite_def insert_session_def set_joiner_def insert_config_def
      upsert_member_def delete_member_def insert_message_def prune_messages_def Let_def)

definition keeps_key :: "response handler \<Rightarrow> bool" where
  "keeps_key p \<longleftrightarrow> (\<forall>k. safe (\<lambda>s. stored_key s = Some k) p)"

abbreviation unborn :: "string option \<Rightarrow> app_state \<Rightarrow> bool" where
  "unborn final s \<equiv> stored_key s = None \<or> stored_key s = final"

lemma key_step:
  assumes "\<forall>p \<in> set (snd c1). keeps_key p" "sched environment (\<lambda>p. served E m p \<or> background E m p) c1 c2"
  shows "(\<forall>p \<in> set (snd c2). keeps_key p) \<and> (unborn final (fst c2) \<longrightarrow> unborn final (fst c1))"
  using assms(2,1)
proof cases
  case (sched_act i ps g s)
  then have g: "keeps_key (Act g)" using assms(1) by (metis nth_mem snd_conv)
  then have "keeps_key (snd (g s))" "\<And>k. stored_key s = Some k \<Longrightarrow> stored_key (fst (g s)) = Some k"
    by (auto simp: keeps_key_def safe_Act)
  with sched_act assms(1) show ?thesis by (cases "stored_key s") (auto dest!: set_update_subset_insert [THEN subsetD])
next
  case (sched_new p s ps)
  then have "keeps_key p" unfolding keeps_key_def by (intro allI group_key.kept_served [of E m])
  with sched_new assms(1) show ?thesis by simp
next
  case (sched_env s s' ps)
  then have "pool s' = pool s" by (auto elim!: environment.cases simp: refresh_step_def split: sum.splits)
  with sched_env assms(1) show ?thesis by simp
qed

lemma reach_keeps_key: "server_reach E c d m (s, ps) \<Longrightarrow> p \<in> set ps \<Longrightarrow> keeps_key p"
proof -
  have "\<forall>p \<in> set (snd c'). keeps_key p"
    if "sched_reach environment (\<lambda>p. served E m p \<or> background E m p) s0 c'" for s0 c'
    using that
  proof (induction rule: sched_reach.induct)
    case (reach_step c c')
    then show ?case using key_step by blast
  qed simp
  then show "server_reach E c d m (s, ps) \<Longrightarrow> p \<in> set ps \<Longrightarrow> keeps_key p" unfolding server_reach_def by force
qed


text \<open>What a join answers, in hindsight.\<close>

abbreviation final_key :: "'v ext \<Rightarrow> string option \<Rightarrow> bytes option" where
  "final_key E final \<equiv> Option.bind final (b64_decode E)"

lemma foresees_insert_key:
  "foresees (unborn final) (\<lambda>r. r = Inr () \<longrightarrow> final = Some v) (sql (\<lambda>s. insert_config ''group_key'' v))"
  unfolding sql_def
proof (rule foresees_atomic, rule impI)
  fix s :: app_state
  let ?m = "if faults s \<noteq> [] \<and> hd (faults s) then (Inl (Fail (Db Engine)), s\<lparr>faults := tl (faults s)\<rparr>)
    else (case insert_config ''group_key'' v (pool s) of (r, d) \<Rightarrow>
      (map_sum (Fail \<circ> Db) id r, s\<lparr>pool := d, faults := tl (faults s)\<rparr>))"
  assume I: "unborn final (snd ?m)" and ok: "fst ?m = Inr ()"
  then have "''group_key'' \<notin> fst ` set (gconfig (pool s))" "\<not> (faults s \<noteq> [] \<and> hd (faults s))"
    by (auto simp: insert_config_def split: if_splits)
  moreover from this have "stored_key s = None" by (simp add: map_of_eq_None_iff)
  ultimately show "final = Some v" using I by (auto simp: insert_config_def map_add_def split: if_splits)
qed

lemma foresees_group_key:
  assumes "base64_ok E"
  shows "foresees (unborn final) (\<lambda>r. \<forall>gk. r = Inr gk \<longrightarrow> final_key E final = Some gk) (get_or_create_group_key E new)"
  unfolding get_or_create_group_key_def map_db_err_def
proof (rule foresees_pmap, rule foresees_pbind [where P = "\<lambda>r. \<forall>b64. r = Inr (Some b64) \<longrightarrow> final = Some b64"])
  show "foresees (unborn final) (\<lambda>r. \<forall>b64. r = Inr (Some b64) \<longrightarrow> final = Some b64) (sql (\<lambda>s. select_config ''group_key''))"
    unfolding sql_def by (rule foresees_atomic) (auto simp: select_config_def query_def split: if_splits)
next
  fix row assume row: "\<forall>b64. Inr row = (Inr (Some b64) :: exn + string option) \<longrightarrow> final = Some b64"
  show "foresees (unborn final) (\<lambda>r. \<forall>gk. (case r of Inl (Fail (Db e)) \<Rightarrow> Inl (Fail (Internal (sqlx_text E e))) | _ \<Rightarrow> r) = Inr gk \<longrightarrow>
        final_key E final = Some gk)
      (case row of Some b64 \<Rightarrow> (case b64_decode E b64 of None \<Rightarrow> fail_with (Internal (b64_error E b64)) | Some key \<Rightarrow> pure key)
       | None \<Rightarrow> pbind (sql (\<lambda>s. insert_config ''group_key'' (b64_encode E new))) (\<lambda>_. pure new))"
  proof (cases row)
    case None
    then show ?thesis using assms
      by (auto simp: pure_def base64_ok_def intro!: foresees_pbind [OF foresees_insert_key] split: exn.splits app_error.splits)
  next
    case (Some b64)
    then show ?thesis using row by (auto simp: fail_with_def throw_def pure_def split: option.split)
  qed
qed (auto split: exn.splits app_error.splits)

lemma foresees_join:
  assumes "base64_ok E"
  shows "foresees (unborn final) (\<lambda>r. \<forall>token enc role. r = Inr (joined_response E token enc role) \<longrightarrow>
      (\<exists>key gk. b64_decode E (jr_pubkey rq) = Some key \<and> final_key E final = Some gk \<and> ecies_encrypt E secret nonce key gk = Inr enc))
    (group_join E new secret nonce rnd rq)" (is "foresees ?I ?Q _")
proof -
  have early: "foresees ?I (\<lambda>r. \<forall>resp. r = Inr (Some resp) \<longrightarrow> status resp = 403) check_members"
    unfolding check_members_def reads_def
    by (rule foresees_after; auto simp: pure_def json_response_def intro!: foresees_after)
  have key: "foresees ?I (\<lambda>r. \<forall>key. r = Inr key \<longrightarrow> b64_decode E (jr_pubkey rq) = Some key) (member_key E rq)"
    unfolding member_key_def by (cases "b64_decode E (jr_pubkey rq)")
      (auto simp: fail_with_def throw_def pure_def intro!: foresees_after)
  have enc: "foresees ?I (\<lambda>r. \<forall>enc. r = Inr enc \<longrightarrow> ecies_encrypt E secret nonce key gk = Inr enc)
      (encrypt_group_key E secret nonce key gk)" for key gk
    unfolding encrypt_group_key_def by (cases "ecies_encrypt E secret nonce key gk") (simp_all add: fail_with_def throw_def pure_def)
  have same: "enc = enc'" if "joined_response E token enc role = joined_response E token' enc' role'" for token enc role token' enc' role'
    using that assms by (auto simp: joined_response_def json_response_def base64_ok_def dest!: arg_cong [of _ _ "b64_decode E"])
  show ?thesis
    unfolding group_join_def Let_def
  proof (rule foresees_pbind [OF early])
    fix full assume full: "\<forall>resp. Inr full = (Inr (Some resp) :: exn + response option) \<longrightarrow> status resp = 403"
    have rest: "foresees ?I ?Q (pbind (member_key E rq) (\<lambda>key. pbind (get_or_create_group_key E new) (\<lambda>gk.
        pbind (encrypt_group_key E secret nonce key gk) (\<lambda>enc. pbind get_member_count (\<lambda>cnt.
        pbind (sql (\<lambda>s. upsert_member (jr_username rq) (jr_pubkey rq) (hash_token E (generate_token E rnd)) (role_for cnt) (sql_now E s))) (\<lambda>_.
        pbind (broadcast (join_frame E (jr_username rq) (role_for cnt))) (\<lambda>_.
        pure (joined_response E (generate_token E rnd) enc (role_for cnt)))))))))"
      by (rule foresees_pbind [OF key], rule foresees_pbind [OF foresees_group_key [OF assms]], rule foresees_pbind [OF enc])
        (auto intro!: foresees_after simp: pure_def dest: same)
    show "foresees ?I ?Q (unless_response full (pbind (member_key E rq) (\<lambda>key. pbind (get_or_create_group_key E new) (\<lambda>gk.
        pbind (encrypt_group_key E secret nonce key gk) (\<lambda>enc. pbind get_member_count (\<lambda>cnt.
        pbind (sql (\<lambda>s. upsert_member (jr_username rq) (jr_pubkey rq) (hash_token E (generate_token E rnd)) (role_for cnt) (sql_now E s))) (\<lambda>_.
        pbind (broadcast (join_frame E (jr_username rq) (role_for cnt))) (\<lambda>_.
        pure (joined_response E (generate_token E rnd) enc (role_for cnt))))))))))"
      using full rest by (cases full) (auto simp: unless_response_def pure_def joined_response_def json_response_def)
  qed simp
qed

text \<open>C11. There is one group key, in every interleaving: a member who was admitted at any time, whatever joins ran at the
  same moment and whatever statements failed among them, opens the \<open>group_key_enc\<close> of the answer with their secret key and
  gets the key the database holds, then and at any later moment. So any two members get the same key.\<close>

theorem group_key_always:
  assumes "base64_ok E" "dh_agrees E" "aead_ok E dec"
    and "server_reach E c d m (s, group_join E new secret nonce rnd rq # ps)"
    and "(sched environment (\<lambda>p. served E m p \<or> background E m p))\<^sup>*\<^sup>* (s, group_join E new secret nonce rnd rq # ps) (s', ps')"
    and "rev ps' ! length ps = pure (joined_response E token enc role)"
    and "b64_decode E (jr_pubkey rq) = Some (dh_public E sk)" "length (dh_public E secret) = 32" "length nonce = 12"
  shows "\<exists>key. group_key_of E (pool s') = Some key \<and> ecies_decrypt E dec sk enc = Some key"
proof -
  have "\<forall>token' enc' role'. Inr (joined_response E token enc role) = (Inr (joined_response E token' enc' role') :: exn + response) \<longrightarrow>
      (\<exists>key gk. b64_decode E (jr_pubkey rq) = Some key \<and> final_key E (stored_key s') = Some gk \<and>
        ecies_encrypt E secret nonce key gk = Inr enc')" (is "?Q (Inr (joined_response E token enc role))")
  proof (rule sched_hindsight [where Q = ?Q and R = "\<lambda>c. \<forall>p \<in> set (snd c). keeps_key p" and I = "unborn (stored_key s')" and j = "length ps"])
    show "\<forall>p \<in> set (snd (s, group_join E new secret nonce rnd rq # ps)). keeps_key p"
      using reach_keeps_key [OF assms(4)] by simp
    show "foresees (unborn (stored_key s')) ?Q (rev (snd (s, group_join E new secret nonce rnd rq # ps)) ! length ps)"
      using foresees_join [OF assms(1)] by (simp add: nth_append)
    show "rev (snd (s', ps')) ! length ps = Ret (Inr (joined_response E token enc role))" using assms(6) by (simp add: pure_def)
  qed (rule assms(5), simp, erule key_step, assumption, simp)
  then obtain gk where "group_key_of E (pool s') = Some gk" "ecies_encrypt E secret nonce (dh_public E sk) gk = Inr enc"
    using assms(7) by (auto simp: group_key_of_def)
  with ecies_open [OF assms(2,3,8,9)] show ?thesis by blast
qed

theorem group_key_always_witness:
  "\<exists>s ps role. server_reach sample_ext sample_config (pool empty_group) ''group'' (s, ps) \<and>
     ps = [pure (joined_response sample_ext (generate_token sample_ext []) (sample_box (replicate 12 2)) role)] \<and>
     (\<exists>key. group_key_of sample_ext (pool s) = Some key \<and>
       ecies_decrypt sample_ext sample_dec (as_bytes sample_key) (sample_box (replicate 12 2)) = Some key)"
proof -
  let ?j = "group_join sample_ext [] (replicate 32 1) (replicate 12 2) [] (sample_join ''bob'')"
  let ?s = "new_state (pool empty_group) sample_config ''group''"
  let ?req = "\<lambda>p. served sample_ext ''group'' p \<or> background sample_ext ''group'' p"
  have joinable: "joinable ?s" by (simp add: joinable_def new_state_def)
  have fresh: "hash_token sample_ext (generate_token sample_ext []) \<notin> m_hash ` set (members (pool ?s))"
    by (simp add: new_state_def)
  obtain s role where run: "run ?j ?s =
      (Inr (joined_response sample_ext (generate_token sample_ext []) (sample_box (replicate 12 2)) role), s)"
    using sample_joins [OF joinable fresh, of "[]" "replicate 12 2" "''bob''"] by blast
  let ?r = "pure (joined_response sample_ext (generate_token sample_ext []) (sample_box (replicate 12 2)) role)"
  have "served sample_ext ''group'' ?j"
    unfolding served_def by (intro exI [of _ "(''POST'', ''/group/join'')"] exI [of _ Group_Join] conjI h_group_join)
      (simp add: build_router_def group_routes_def)
  then have here: "server_reach sample_ext sample_config (pool empty_group) ''group'' (?s, [?j])"
    unfolding server_reach_def by (intro reach_step [OF reach_start sched_new] disjI1)
  have later: "(sched environment ?req)\<^sup>*\<^sup>* (?s, [?j]) (s, [?r])"
    using sched_run [of 0 "[?j]", OF _ _ run, of environment ?req] by simp
  have "server_reach sample_ext sample_config (pool empty_group) ''group'' (s, [?r])"
    using here unfolding server_reach_def by (rule sched_reach_steps [OF later])
  moreover have "\<exists>key. group_key_of sample_ext (pool s) = Some key \<and>
      ecies_decrypt sample_ext sample_dec (as_bytes sample_key) (sample_box (replicate 12 2)) = Some key"
    by (rule group_key_always [OF sample_base64_ok sample_dh_agrees sample_aead_ok here later])
      (simp_all add: sample_join_def sample_ext_def)
  ultimately show ?thesis by blast
qed

end
