(* ===== verification/Group_Spec.thy ===== *)
theory Group_Spec
  imports Group_Facts
begin

text \<open>
  What group mode promises about its members, as a map from names to public key, token hash and role,
  and the proof that the handlers implement it.
\<close>

section \<open>The group as a map\<close>

type_synonym roster = "string \<rightharpoonup> string \<times> string \<times> string"

definition roster :: "db \<Rightarrow> roster" where
  "roster d = map_of (map (\<lambda>m. (m_name m, m_pubkey m, m_hash m, m_role m)) (members d))"

text \<open>Taking a seat: a name that has one keeps its role.\<close>

definition spec_seat :: "string \<Rightarrow> string \<Rightarrow> string \<Rightarrow> string \<Rightarrow> roster \<Rightarrow> roster" where
  "spec_seat name key hash role r = r(name \<mapsto> (key, hash, case r name of Some (_, _, old) \<Rightarrow> old | None \<Rightarrow> role))"

definition spec_join :: "string \<Rightarrow> string \<Rightarrow> string \<Rightarrow> roster \<Rightarrow> roster" where
  "spec_join name key hash r = spec_seat name key hash (if r = Map.empty then ''owner'' else ''member'') r"

definition spec_leave :: "string \<Rightarrow> roster \<Rightarrow> roster" where
  "spec_leave name r = r(name := None)"

lemma roster_empty: "roster d = Map.empty \<longleftrightarrow> members d = []"
  unfolding roster_def by (cases "members d") auto

lemma roster_upsert:
  assumes "fst (upsert_member name key hash role now d) = Inr ()"
  shows "roster (snd (upsert_member name key hash role now d)) = spec_seat name key hash role (roster d)"
proof -
  let ?f = "\<lambda>m :: member_row. (m_name m, m_pubkey m, m_hash m, m_role m)"
  let ?u = "\<lambda>m :: member_row. if m_name m = name then m\<lparr>m_pubkey := key, m_hash := hash\<rparr> else m"
  have upd: "map_of (map ?f (map ?u ms)) x = (if x = name
      then map_option (\<lambda>(k, h, r). (key, hash, r)) (map_of (map ?f ms) name) else map_of (map ?f ms) x)" for ms x
    by (induction ms) auto
  show ?thesis
  proof (cases "roster d name")
    case None
    then have "name \<notin> m_name ` set (members d)"
      unfolding roster_def by (simp add: map_of_eq_None_iff image_image)
    with assms obtain i where "members (snd (upsert_member name key hash role now d)) =
        members d @ [\<lparr>m_id = i, m_name = name, m_pubkey = key, m_hash = hash, m_role = role, m_joined = now\<rparr>]"
      by (simp add: upsert_member_def Let_def split: if_splits)
    then show ?thesis using None by (auto simp: spec_seat_def roster_def map_add_def fun_eq_iff split: option.split)
  next
    case (Some x)
    then obtain k h r where x: "map_of (map ?f (members d)) name = Some (k, h, r)" unfolding roster_def by (cases x) auto
    then have "name \<in> m_name ` set (members d)" by (force dest: map_of_SomeD)
    with assms have "members (snd (upsert_member name key hash role now d)) = map ?u (members d)"
      by (auto simp: upsert_member_def Let_def split: if_splits)
    then show ?thesis using x by (simp only: roster_def) (simp add: spec_seat_def fun_eq_iff upd [unfolded map_map] roster_def)
  qed
qed

lemma roster_delete: "roster (snd (delete_member name d)) = spec_leave name (roster d)"
proof -
  have "map_of (map (\<lambda>m. (m_name m, m_pubkey m, m_hash m, m_role m)) (filter (\<lambda>m. m_name m \<noteq> name) ms)) =
      (map_of (map (\<lambda>m. (m_name m, m_pubkey m, m_hash m, m_role m)) ms))(name := None)" for ms :: "member_row list"
    by (induction ms) auto
  then show ?thesis by (simp add: roster_def delete_member_def spec_leave_def)
qed

lemma roster_member:
  assumes "db_ok d"
  shows "roster d u = Some (k, h, r) \<longleftrightarrow> (\<exists>m \<in> set (members d). m_name m = u \<and> m_pubkey m = k \<and> m_hash m = h \<and> m_role m = r)"
proof -
  have "distinct (map fst (map (\<lambda>m. (m_name m, m_pubkey m, m_hash m, m_role m)) (members d)))"
    using assms by (simp add: db_ok_def members_ok_def comp_def)
  then show ?thesis unfolding roster_def by (auto simp: map_of_eq_Some_iff image_iff)
qed

lemma join_succeeds:
  assumes "faults s = []" "run (group_join E fresh secret nonce rnd rq) s = (Inr (joined_response E token enc role), s')"
  shows "\<exists>now d. members d = members (pool s) \<and>
    fst (upsert_member (jr_username rq) (jr_pubkey rq) (hash_token E (generate_token E rnd)) (role_for (length (members d))) now d) = Inr () \<and>
    pool s' = snd (upsert_member (jr_username rq) (jr_pubkey rq) (hash_token E (generate_token E rnd)) (role_for (length (members d))) now d)"
proof -
  have full: "run check_members s = (Inr None, s)"
    using assms by (auto simp: group_join_def run_pbind run_check_members run_unless_response joined_response_def
        json_response_def split: if_splits)
  obtain pk where pk: "run (member_key E rq) s = (Inr pk, s)"
    using assms(2) full
    by (auto simp: group_join_def run_pbind run_unless_response run_member_key split: option.splits if_splits)
  obtain gk s1 where gk: "run (get_or_create_group_key E fresh) s = (Inr gk, s1)"
    using assms(2) full pk by (auto simp: group_join_def run_pbind run_unless_response split: prod.splits sum.splits)
  have s1: "members (pool s1) = members (pool s)" "faults s1 = []"
    using owners_group_key [OF assms(1), of E fresh] gk by simp_all
  obtain c where c: "run (encrypt_group_key E secret nonce pk gk) s1 = (Inr c, s1)"
    using assms(2) full pk gk
    by (auto simp: group_join_def run_pbind run_unless_response run_encrypt_group_key split: prod.splits sum.splits)
  let ?up = "upsert_member (jr_username rq) (jr_pubkey rq) (hash_token E (generate_token E rnd))
      (role_for (length (members (pool s1)))) (sql_now E s1) (pool s1)"
  have "fst ?up = Inr () \<and> pool s' = snd ?up"
    using assms(2) full pk gk c s1
    by (cases "fst ?up") (auto simp: group_join_def Let_def run_pbind run_unless_response run_member_count run_sql_ok
        run_broadcast run_pure)
  with s1 show ?thesis by blast
qed

text \<open>C9. The handlers refine the map of members: a successful join is \<open>spec_join\<close>, leaving is \<open>spec_leave\<close>, and a bearer authenticates exactly as the entry with the hash of its token.\<close>

theorem roster_refines:
  assumes "faults s = []" "db_ok (pool s)"
  shows "let r = roster (pool s) in
    (\<forall>token enc role s'. run (group_join E fresh secret nonce rnd rq) s = (Inr (joined_response E token enc role), s') \<longrightarrow>
       roster (pool s') = spec_join (jr_username rq) (jr_pubkey rq) (hash_token E (generate_token E rnd)) r) \<and>
    (\<forall>u role. fst (run (resolve_member E hs) s) = Inr (u, role) \<longleftrightarrow>
       (\<exists>raw key. extract_bearer hs = Inr raw \<and> r u = Some (key, hash_token E raw, role))) \<and>
    (\<forall>u role s'. fst (run (resolve_member E hs) s) = Inr (u, role) \<longrightarrow> run (group_leave E hs) s = (Inr no_content, s') \<longrightarrow>
       roster (pool s') = spec_leave u r)"
proof -
  have join: "roster (pool s') = spec_join (jr_username rq) (jr_pubkey rq) (hash_token E (generate_token E rnd)) (roster (pool s))"
    if ok: "run (group_join E fresh secret nonce rnd rq) s = (Inr (joined_response E token enc role), s')" for token enc role s'
  proof -
    obtain now d where d: "members d = members (pool s)"
      "fst (upsert_member (jr_username rq) (jr_pubkey rq) (hash_token E (generate_token E rnd)) (role_for (length (members d))) now d) = Inr ()"
      "pool s' = snd (upsert_member (jr_username rq) (jr_pubkey rq) (hash_token E (generate_token E rnd)) (role_for (length (members d))) now d)"
      using join_succeeds [OF assms(1) ok] by blast
    have "roster d = roster (pool s)" by (simp add: roster_def d(1))
    with roster_upsert [OF d(2)] d(3) show ?thesis using roster_empty [of d] by (simp add: spec_join_def role_for_def)
  qed
  have res: "fst (run (resolve_member E hs) s) = Inr (u, role) \<longleftrightarrow>
       (\<exists>raw key. extract_bearer hs = Inr raw \<and> roster (pool s) u = Some (key, hash_token E raw, role))" for u role
  proof (cases "extract_bearer hs")
    case (Inl e)
    then show ?thesis by (simp add: run_resolve_member [OF assms(1)])
  next
    case (Inr raw)
    have "fst (run (resolve_member E hs) s) = Inr (u, role) \<longleftrightarrow>
        (\<exists>m. List.find (\<lambda>m. m_hash m = hash_token E raw) (members (pool s)) = Some m \<and> m_name m = u \<and> m_role m = role)"
      using Inr by (simp add: run_resolve_member [OF assms(1)] split: option.split)
    then show ?thesis
      using Inr by (auto simp: member_hash.find_iff [OF assms(2)] roster_member [OF assms(2)])
  qed
  have leave: "roster (pool s') = spec_leave u (roster (pool s))"
    if "fst (run (resolve_member E hs) s) = Inr (u, role)" "run (group_leave E hs) s = (Inr no_content, s')" for u role s'
  proof -
    have "fst (delete_member u (pool s)) = Inr ()" by (simp add: delete_member_def)
    then have "run (group_leave E hs) s = (Inr no_content, broadcasted (leave_frame E u) (s\<lparr>pool := snd (delete_member u (pool s))\<rparr>))"
      unfolding group_leave_def member_auth.accepted [OF assms(1) that(1)]
      by (simp add: run_pbind run_sql_ok assms(1) run_broadcast run_pure)
    then show ?thesis using that(2) roster_delete by auto
  qed
  show ?thesis unfolding Let_def using join res leave by (intro conjI allI impI) assumption+
qed

theorem roster_refines_witness:
  "\<exists>s'. run (group_leave sample_ext (bearer sample_token)) sample_group = (Inr no_content, s') \<and> roster (pool s') ''ann'' = None"
proof -
  have res: "run (resolve_member sample_ext (bearer sample_token)) sample_group = (Inr (''ann'', ''owner''), sample_group)"
    using extract_bearer_token [OF sample_hex_ok]
    by (simp add: run_resolve_member sample_token_def sample_owner_def)
  obtain s' where s': "run (group_leave sample_ext (bearer sample_token)) sample_group = (Inr no_content, s')"
    by (simp add: group_leave_def run_pbind res run_sql_ok delete_member_def run_broadcast run_pure)
  have "roster (pool s') = spec_leave ''ann'' (roster (pool sample_group))"
    using roster_refines [OF sample_group_simps(6) sample_group_ok(1), of sample_ext "[]" "[]" "[]" "[]" "sample_join []" "bearer sample_token"] res s'
    by (simp add: Let_def)
  with s' show ?thesis by (simp add: spec_leave_def)
qed

end
