(* ===== verification/Group_Steps.thy ===== *)
theory Group_Steps
  imports Group_Spec Statement_Rules
begin

text \<open>
  The map of members as a concurrent object: \<open>roster_step\<close> is its transition system, and being reachable by it is a
  \<open>statement_property\<close>, so that the map simulates the whole server.
\<close>

section \<open>The members, one step at a time\<close>

inductive roster_step :: "roster \<Rightarrow> roster \<Rightarrow> bool" where
  take_seat: "(\<And>other k h r. R other = Some (k, h, r) \<Longrightarrow> other \<noteq> name \<Longrightarrow> h \<noteq> hash) \<Longrightarrow> role \<in> {''owner'', ''member''} \<Longrightarrow>
    roster_step R (spec_seat name key hash role R)"
| leave_seat: "roster_step R (spec_leave name R)"

lemma step_upsert:
  "roster_step\<^sup>=\<^sup>= (roster d) (roster (snd (upsert_member name key hash (role_for cnt) now d)))"
proof (cases "\<exists>m \<in> set (members d). m_hash m = hash \<and> m_name m \<noteq> name")
  case True
  then show ?thesis by (simp add: upsert_member_def)
next
  case False
  then have "fst (upsert_member name key hash (role_for cnt) now d) = Inr ()" by (auto simp: upsert_member_def Let_def)
  note seat = roster_upsert [OF this]
  have "h \<noteq> hash" if "roster d other = Some (k, h, r)" "other \<noteq> name" for other k h r
    using that False by (auto simp: roster_def dest!: map_of_SomeD)
  moreover have "role_for cnt \<in> {''owner'', ''member''}" by (simp add: role_for_def)
  ultimately have "roster_step (roster d) (spec_seat name key hash (role_for cnt) (roster d))" by (rule take_seat)
  then show ?thesis unfolding seat by simp
qed

lemma members_kept:
  "roster_step\<^sup>*\<^sup>* R0 (roster d) \<Longrightarrow> members d' = members d \<Longrightarrow> roster_step\<^sup>*\<^sup>* R0 (roster d')"
  by (simp add: roster_def)

interpretation roster: statement_property "\<lambda>d. roster_step\<^sup>*\<^sup>* R0 (roster d)" for R0
proof
  have more: "roster_step\<^sup>*\<^sup>* R0 R'" if "roster_step\<^sup>*\<^sup>* R0 R" "roster_step\<^sup>=\<^sup>= R R'" for R R'
    using that by auto
  fix d n k h cnt t
  assume d: "roster_step\<^sup>*\<^sup>* R0 (roster d)"
  show "roster_step\<^sup>*\<^sup>* R0 (roster (snd (upsert_member n k h (role_for cnt) t d)))"
    by (rule more [OF d step_upsert])
  show "roster_step\<^sup>*\<^sup>* R0 (roster (snd (delete_member n d)))"
    by (rule more [OF d]) (simp add: roster_delete leave_seat)
qed (rule members_kept, assumption, simp add: insert_user_def insert_presence_def insert_token_def upsert_presence_def touch_presence_def
    delete_user_def delete_oldest_token_def use_invite_def insert_invite_def insert_session_def set_joiner_def
    insert_config_def insert_message_def prune_messages_def Let_def)+

text \<open>Every seat has one of the two roles and no two share a token: an invariant of the abstract map.\<close>

definition seats_ok :: "roster \<Rightarrow> bool" where
  "seats_ok R \<longleftrightarrow> (\<forall>n k h r. R n = Some (k, h, r) \<longrightarrow> r \<in> {''owner'', ''member''} \<and>
     (\<forall>n' k' r'. R n' = Some (k', h, r') \<longrightarrow> n' = n))"

lemma step_seats: "roster_step R R' \<Longrightarrow> seats_ok R \<Longrightarrow> seats_ok R'"
proof (induction rule: roster_step.induct)
  case (take_seat R name hash role key)
  have roles: "r \<in> {''owner'', ''member''}" if "R n = Some (k, h, r)" for n k h r using take_seat(3) that by (simp add: seats_ok_def)
  have apart: "n' = n" if "R n = Some (k, h, r)" "R n' = Some (k', h, r')" for n n' k k' h r r'
    using take_seat(3) that unfolding seats_ok_def by blast
  let ?r = "case R name of Some (_, _, old) \<Rightarrow> old | None \<Rightarrow> role"
  have "?r \<in> {''owner'', ''member''}" using take_seat(2) roles [of name] by (cases "R name") auto
  then have "r \<in> {''owner'', ''member''}" if "(R(name \<mapsto> (key, hash, ?r))) n = Some (k, h, r)" for n k h r
    using that roles [of n] by (cases "n = name") auto
  moreover have "n' = n" if "(R(name \<mapsto> (key, hash, ?r))) n = Some (k, h, r)" "(R(name \<mapsto> (key, hash, ?r))) n' = Some (k', h, r')"
    for n n' k k' h r r'
  proof (cases "n = name \<or> n' = name")
    case True
    then show ?thesis using that take_seat(1) [of n] take_seat(1) [of n'] by (auto split: if_splits)
  next
    case False
    then show ?thesis using that apart [of n k h r n' k' r'] by simp
  qed
  ultimately show ?case unfolding seats_ok_def spec_seat_def by blast
next
  case (leave_seat R name)
  then show ?case by (auto simp: seats_ok_def spec_leave_def)
qed

text \<open>C10. The map of members describes the group under any load: in every interleaving of requests and tasks, with failing
  statements among them, the server moves it only by seating a name under a token no one else has, with role owner or
  member unless the name already has a role, or by clearing a seat. Hence no two members ever share a token, and there is no third role.\<close>

theorem roster_always:
  assumes "server_reach E c d m (s, ps)"
  shows "roster_step\<^sup>*\<^sup>* (roster d) (roster (pool s)) \<and> (seats_ok (roster d) \<longrightarrow> seats_ok (roster (pool s)))"
proof -
  have "roster_step\<^sup>*\<^sup>* (roster d) (roster (pool s))" by (rule roster.kept_always [OF assms]) simp
  moreover have "seats_ok R \<Longrightarrow> seats_ok R'" if "roster_step\<^sup>*\<^sup>* R R'" for R R'
    using that by (induction rule: rtranclp_induct) (simp_all add: step_seats)
  ultimately show ?thesis by blast
qed

theorem roster_always_witness:
  "\<exists>s ps. server_reach sample_ext sample_config (pool sample_group) ''group'' (s, ps) \<and> roster (pool s) ''ann'' = None \<and>
     roster_step\<^sup>*\<^sup>* (roster (pool sample_group)) (roster (pool s))"
proof -
  let ?s = "new_state (pool sample_group) sample_config ''group''"
  have res: "run (resolve_member sample_ext (bearer sample_token)) ?s = (Inr (''ann'', ''owner''), ?s)"
    using extract_bearer_token [OF sample_hex_ok]
    by (simp add: run_resolve_member new_state_def sample_token_def sample_owner_def)
  have d: "delete_member ''ann'' (pool ?s) = (Inr (), (pool ?s)\<lparr>members := []\<rparr>)"
    by (simp add: delete_member_def new_state_def sample_owner_def)
  have f: "faults ?s = []" by (simp add: new_state_def)
  obtain s where s: "run (group_leave sample_ext (bearer sample_token)) ?s = (Inr no_content, s)" "members (pool s) = []"
    by (simp add: group_leave_def run_pbind res run_sql_ok f d run_broadcast run_pure)
  have "served sample_ext ''group'' (group_leave sample_ext (bearer sample_token))"
    unfolding served_def by (intro exI [of _ "(''DELETE'', ''/group/leave'')"] exI [of _ Group_Leave] conjI h_group_leave)
      (simp add: build_router_def group_routes_def)
  from server_request [OF server_start this s(1)]
  have reach: "server_reach sample_ext sample_config (pool sample_group) ''group'' (s, [pure no_content])" .
  show ?thesis using reach s(2) roster_always [OF reach] by (auto simp: roster_def)
qed

end
