(* ===== verification/Group_Ws.thy ===== *)
theory Group_Ws
  imports Server "HOL-Library.Sublist"
begin

text \<open>
  The WebSocket connections of group mode (\<open>group_ws_handler\<close> of \<open>src/group.rs\<close>). A configuration is
  the server, the connection tasks and the HTTP requests in flight. Each branch of the \<open>select!\<close> is a
  step of \<open>group_step\<close>; so is every atomic section of a message being handled or of a request. The
  results of \<open>group_text\<close> are never errors, since the handler discards those of its statements.
  \<open>sent\<close> is what a socket was sent, \<open>fwd\<close> the part of it that came out of the connection's queue.
\<close>

section \<open>A connection\<close>

datatype conn_task =
    GStart string string
  | GOpen string string nat
  | GLoop string string nat
  | GText string string nat "ws_msg list handler"
  | GStop string nat
  | GBye string
  | GGone

record conn =
  task :: conn_task
  sent :: "ws_msg list"
  fwd :: "string list"

record group_conf =
  gsrv :: app_state
  conns :: "conn list"
  reqs :: "response handler list"

definition new_conn :: "string \<Rightarrow> string \<Rightarrow> conn" where
  "new_conn u r = \<lparr>task = GStart u r, sent = [], fwd = []\<rparr>"

definition conn_start :: "string \<Rightarrow> string \<Rightarrow> app_state \<times> conn \<Rightarrow> app_state \<times> conn" where
  "conn_start u r x =
     (case run (connect u) (fst x) of
        (Inr q, s) \<Rightarrow> (s, (snd x)\<lparr>task := GOpen u r q\<rparr>)
      | (Inl e, s) \<Rightarrow> (s, (snd x)\<lparr>task := GGone\<rparr>))"

text \<open>\<open>ok\<close>: the socket took the frame. Only a failing forward ends the loop.\<close>

definition conn_history :: "'v ext \<Rightarrow> string \<Rightarrow> string \<Rightarrow> nat \<Rightarrow> bool \<Rightarrow> app_state \<times> conn \<Rightarrow> app_state \<times> conn" where
  "conn_history E u r q ok x =
     (case run (history_frames E) (fst x) of
        (Inr fs, s) \<Rightarrow> (s, (snd x)\<lparr>task := GLoop u r q, sent := sent (snd x) @ (if ok then fs else [])\<rparr>)
      | (Inl e, s) \<Rightarrow> (s, (snd x)\<lparr>task := GGone\<rparr>))"

definition conn_incoming :: "'v ext \<Rightarrow> string \<Rightarrow> string \<Rightarrow> nat \<Rightarrow> incoming \<Rightarrow> bool \<Rightarrow> conn \<Rightarrow> conn" where
  "conn_incoming E u r q i ok k =
     (case i of
        Frame m \<Rightarrow>
          (case m of
             Text t \<Rightarrow> k\<lparr>task := GText u r q (group_text E u r t)\<rparr>
           | Ping d \<Rightarrow> k\<lparr>sent := sent k @ (if ok then [Pong d] else [])\<rparr>
           | _ \<Rightarrow> k\<lparr>task := GStop u q\<rparr>)
      | _ \<Rightarrow> k\<lparr>task := GStop u q\<rparr>)"

definition conn_forward :: "string \<Rightarrow> nat \<Rightarrow> string \<Rightarrow> bool \<Rightarrow> conn \<Rightarrow> conn" where
  "conn_forward u q m ok k =
     (let k' = k\<lparr>fwd := fwd k @ [m]\<rparr>
      in if ok then k'\<lparr>sent := sent k @ [Text m]\<rparr> else k'\<lparr>task := GStop u q\<rparr>)"

section \<open>All connections\<close>

datatype group_event =
    Accept string string | Opening nat | History nat bool | Incoming nat incoming bool | Section nat
  | Answer nat bool | Forward nat bool | Hangup nat | Leave nat | Bye nat | Request | Serve nat | Env

definition set_conn :: "nat \<Rightarrow> app_state \<times> conn \<Rightarrow> group_conf \<Rightarrow> group_conf" where
  "set_conn i x c = c\<lparr>gsrv := fst x, conns := (conns c)[i := snd x]\<rparr>"

abbreviation conn_at :: "nat \<Rightarrow> group_conf \<Rightarrow> conn_task \<Rightarrow> bool" where
  "conn_at i c t \<equiv> i < length (conns c) \<and> task (conns c ! i) = t"

inductive group_step :: "'v ext \<Rightarrow> group_conf \<Rightarrow> group_event \<Rightarrow> group_conf \<Rightarrow> bool" for E where
  g_accept: "GroupWs u r \<in> set (spawned (gsrv c)) \<Longrightarrow>
    group_step E c (Accept u r) (c\<lparr>gsrv := (gsrv c)\<lparr>spawned := remove1 (GroupWs u r) (spawned (gsrv c))\<rparr>,
      conns := conns c @ [new_conn u r]\<rparr>)"
| g_open: "conn_at i c (GStart u r) \<Longrightarrow>
    group_step E c (Opening i) (set_conn i (conn_start u r (gsrv c, conns c ! i)) c)"
| g_history: "conn_at i c (GOpen u r q) \<Longrightarrow>
    group_step E c (History i ok) (set_conn i (conn_history E u r q ok (gsrv c, conns c ! i)) c)"
| g_incoming: "conn_at i c (GLoop u r q) \<Longrightarrow>
    group_step E c (Incoming i x ok) (set_conn i (gsrv c, conn_incoming E u r q x ok (conns c ! i)) c)"
| g_section: "conn_at i c (GText u r q (Act g)) \<Longrightarrow>
    group_step E c (Section i)
      (set_conn i (fst (g (gsrv c)), (conns c ! i)\<lparr>task := GText u r q (snd (g (gsrv c)))\<rparr>) c)"
| g_answer: "conn_at i c (GText u r q (Ret (Inr fs))) \<Longrightarrow>
    group_step E c (Answer i ok)
      (set_conn i (gsrv c, (conns c ! i)\<lparr>task := GLoop u r q, sent := sent (conns c ! i) @ (if ok then fs else [])\<rparr>) c)"
| g_forward: "conn_at i c (GLoop u r q) \<Longrightarrow> queues (gsrv c) q = m # ms \<Longrightarrow>
    group_step E c (Forward i ok)
      (set_conn i ((gsrv c)\<lparr>queues := (queues (gsrv c))(q := ms)\<rparr>, conn_forward u q m ok (conns c ! i)) c)"
| g_hangup: "conn_at i c (GLoop u r q) \<Longrightarrow> queues (gsrv c) q = [] \<Longrightarrow> q \<notin> snd ` set (group_conns (gsrv c)) \<Longrightarrow>
    group_step E c (Hangup i) (set_conn i (gsrv c, (conns c ! i)\<lparr>task := GStop u q\<rparr>) c)"
| g_leave: "conn_at i c (GStop u q) \<Longrightarrow>
    group_step E c (Leave i) (set_conn i (snd (run (disconnect u) (gsrv c)), (conns c ! i)\<lparr>task := GBye u\<rparr>) c)"
| g_bye: "conn_at i c (GBye u) \<Longrightarrow>
    group_step E c (Bye i)
      (set_conn i (snd (run (broadcast (leave_frame E u)) (gsrv c)), (conns c ! i)\<lparr>task := GGone\<rparr>) c)"
| g_request: "served E ''group'' p \<Longrightarrow> group_step E c Request (c\<lparr>reqs := p # reqs c\<rparr>)"
| g_serve: "j < length (reqs c) \<Longrightarrow> reqs c ! j = Act g \<Longrightarrow>
    group_step E c (Serve j) (c\<lparr>gsrv := fst (g (gsrv c)), reqs := (reqs c)[j := snd (g (gsrv c))]\<rparr>)"
| g_env: "environment (gsrv c) s \<Longrightarrow> group_step E c Env (c\<lparr>gsrv := s\<rparr>)"

inductive_cases group_step_cases [consumes 1, case_names accept start history incoming sect answer forward hangup
  leave bye request serve env]: "group_step E c e c'"

inductive group_run :: "'v ext \<Rightarrow> group_conf \<Rightarrow> group_event list \<Rightarrow> group_conf \<Rightarrow> bool" for E c where
  g_nil: "group_run E c [] c"
| g_snoc: "group_run E c es c' \<Longrightarrow> group_step E c' e c'' \<Longrightarrow> group_run E c (es @ [e]) c''"

definition group_start :: "app_state \<Rightarrow> group_conf" where
  "group_start s = \<lparr>gsrv = s, conns = [], reqs = []\<rparr>"

definition group_reach :: "'v ext \<Rightarrow> group_conf \<Rightarrow> bool" where
  "group_reach E c \<longleftrightarrow> (\<exists>d cfg es. group_run E (group_start (new_state d cfg ''group'')) es c)"

section \<open>The invariant\<close>

text \<open>A bystander of the connection table: it may put frames into queues, and does nothing else there.\<close>

definition bystander :: "app_state \<Rightarrow> app_state \<Rightarrow> bool" where
  "bystander s0 s \<longleftrightarrow> group_conns s = group_conns s0 \<and> next_queue s = next_queue s0 \<and>
     (\<forall>q. prefix (queues s0 q) (queues s q))"

lemma bystander_refl: "bystander s s"
  by (simp add: bystander_def)

lemma bystander_same:
  "bystander s0 s \<Longrightarrow> group_conns t = group_conns s \<Longrightarrow> next_queue t = next_queue s \<Longrightarrow> queues t = queues s \<Longrightarrow>
     bystander s0 t"
  by (simp add: bystander_def)

lemma bystander_frames: "bystander s0 s \<Longrightarrow> bystander s0 (broadcasted f s)"
  by (auto simp: bystander_def broadcasted_def intro: prefix_order.trans)

interpretation aside: group_local "bystander s0" for s0
  by unfold_locales (auto intro: bystander_frames elim: bystander_same)

definition quiet_proc :: "'a handler \<Rightarrow> bool" where
  "quiet_proc p \<longleftrightarrow> (\<forall>s0. safe (bystander s0) p)"

lemma aside_step: "quiet_proc (Act g) \<Longrightarrow> bystander s (fst (g s)) \<and> quiet_proc (snd (g s))"
  using bystander_refl by (auto simp: quiet_proc_def safe_Act)

lemma environment_bystander: "environment s s' \<Longrightarrow> bystander s s'"
  by (erule environment.cases) (auto simp: bystander_def refresh_step_def split: sum.split)

lemma group_text_quiet: "quiet_proc (group_text E u r t)"
  by (simp add: quiet_proc_def aside.local_group)

text \<open>The entry a connection has in the table unless a newer one of the same user replaced it.\<close>

fun holds :: "conn_task \<Rightarrow> (string \<times> nat) option" where
  "holds (GOpen u r q) = Some (u, q)"
| "holds (GLoop u r q) = Some (u, q)"
| "holds (GText u r q p) = Some (u, q)"
| "holds (GStop u q) = Some (u, q)"
| "holds t = None"

definition held :: "group_conf \<Rightarrow> (string \<times> nat) option list" where
  "held c = map (\<lambda>k. holds (task k)) (conns c)"

definition table_ok :: "(string, nat) hmap \<Rightarrow> nat \<Rightarrow> (string \<times> nat) option list \<Rightarrow> bool" where
  "table_ok T n H \<longleftrightarrow> keys_ok T \<and> (\<forall>x \<in> set T. Some x \<in> set H) \<and> (\<forall>x. Some x \<in> set H \<longrightarrow> snd x < n) \<and>
     (\<forall>i < length H. \<forall>j < length H. \<forall>x y. H ! i = Some x \<longrightarrow> H ! j = Some y \<longrightarrow> snd x = snd y \<longrightarrow> i = j)"

lemma table_ok_append: "table_ok T n H \<Longrightarrow> table_ok T n (H @ [None])"
  by (auto simp: table_ok_def nth_append split: if_splits)

lemma set_update_subset: "set (AList.update k v T) \<subseteq> insert (k, v) (set T)"
  by (induction T) auto

lemma list_update_keeps: "x \<in> set H \<Longrightarrow> H ! i \<noteq> x \<Longrightarrow> x \<in> set (H[i := y])"
  by (metis in_set_conv_nth length_list_update nth_list_update_neq)

lemma table_ok_connect:
  assumes "table_ok T n H" "i < length H" "H ! i = None"
  shows "table_ok (AList.update u n T) (Suc n) (H[i := Some (u, n)])"
proof -
  have new: "Some x \<in> set (H[i := Some (u, n)]) \<Longrightarrow> x = (u, n) \<or> Some x \<in> set H" for x
    using set_update_subset_insert [of H i] by auto
  have "snd x < Suc n" if "Some x \<in> set (H[i := Some (u, n)])" for x
    using new [OF that] assms(1) unfolding table_ok_def by (metis lessI less_SucI snd_conv)
  moreover have "Some x \<in> set (H[i := Some (u, n)])" if "x \<in> set (AList.update u n T)" for x
    using that set_update_subset [of u n T] assms list_update_keeps [of "Some x" H i]
    by (auto simp: table_ok_def set_update_memI)
  moreover have "a = b" if "a < length H" "b < length H" "H[i := Some (u, n)] ! a = Some x" "H[i := Some (u, n)] ! b = Some y"
      "snd x = snd y" for a b x y
  proof -
    have old: "snd z < n" if "H ! k = Some z" "k < length H" for k z
      using assms(1) that unfolding table_ok_def by (metis nth_mem)
    show ?thesis
      using that assms(1) old [of a x] old [of b y]
      by (cases "a = i"; cases "b = i") (auto simp: table_ok_def simp del: split_paired_All)
  qed
  ultimately show ?thesis using assms(1) by (simp add: table_ok_def hm.ok_put)
qed

lemma table_ok_disconnect:
  assumes "table_ok T n H" "i < length H" "H ! i = Some (u, q)"
  shows "table_ok (AList.delete u T) n (H[i := None])"
proof -
  have "Some x \<in> set (H[i := None])" if "x \<in> set (AList.delete u T)" for x
    using that assms list_update_keeps [of "Some x" H i] by (auto simp: table_ok_def AList.delete_eq)
  moreover have "Some x \<in> set H" if "Some x \<in> set (H[i := None])" for x
    using that set_update_subset_insert [of H i None] by auto
  moreover have "a = b" if "a < length H" "b < length H" "H[i := None] ! a = Some x" "H[i := None] ! b = Some y"
      "snd x = snd y" for a b x y
    using that assms(1,2) unfolding table_ok_def
    by (metis length_list_update nth_list_update_eq nth_list_update_neq option.distinct(1))
  ultimately show ?thesis using assms(1) by (simp add: table_ok_def hm.ok_del) blast
qed

definition group_ok :: "group_conf \<Rightarrow> bool" where
  "group_ok c \<longleftrightarrow> table_ok (group_conns (gsrv c)) (next_queue (gsrv c)) (held c) \<and>
     (\<forall>p \<in> set (reqs c). quiet_proc p) \<and> (\<forall>k \<in> set (conns c). \<forall>u r q p. task k = GText u r q p \<longrightarrow> quiet_proc p)"

lemma held_set_conn: "held (set_conn i (s, k) c) = (held c)[i := holds (task k)]"
  by (simp add: held_def set_conn_def map_update)

lemma group_ok_set:
  assumes "group_ok c" "i < length (conns c)"
    and "table_ok (group_conns s) (next_queue s) ((held c)[i := holds (task k)])"
    and "\<And>u r q p. task k = GText u r q p \<Longrightarrow> quiet_proc p"
  shows "group_ok (set_conn i (s, k) c)"
  using assms set_update_subset_insert [of "conns c" i k]
  by (auto simp: group_ok_def held_set_conn) (auto simp: set_conn_def)

text \<open>A step of the connection that keeps its entry, the rest of the server moving as a bystander.\<close>

lemma group_ok_keep:
  assumes "group_ok c" "i < length (conns c)" "holds (task k) = holds (task (conns c ! i))"
    and "group_conns s = group_conns (gsrv c)" "next_queue s = next_queue (gsrv c)"
    and "\<And>u r q p. task k = GText u r q p \<Longrightarrow> quiet_proc p"
  shows "group_ok (set_conn i (s, k) c)"
proof -
  have "(held c)[i := holds (task k)] = held c"
    using assms(2,3) by (metis held_def length_map list_update_id nth_map)
  with assms show ?thesis by (intro group_ok_set) (auto simp: group_ok_def)
qed

lemma group_ok_bystander:
  assumes "group_ok c" "bystander (gsrv c) s" "\<forall>p \<in> set ps. quiet_proc p"
  shows "group_ok (c\<lparr>gsrv := s, reqs := ps\<rparr>)"
  using assms by (auto simp: group_ok_def bystander_def held_def)

lemma run_connect: "run (connect u) s =
    (Inr (next_queue s), s\<lparr>queues := (queues s)(next_queue s := []), next_queue := Suc (next_queue s),
       group_conns := AList.update u (next_queue s) (group_conns s)\<rparr>)"
  by (simp add: connect_def run_atomic)

lemma run_disconnect: "run (disconnect u) s = (Inr (), s\<lparr>group_conns := AList.delete u (group_conns s)\<rparr>)"
  by (simp add: disconnect_def run_atomic)

lemma run_history: "\<exists>fs. run (history_frames E) s = (Inr fs, s\<lparr>faults := tl (faults s)\<rparr>)"
  by (simp add: history_frames_def run_pbind run_reads run_unwrap_or select_history_def run_query run_pure)

lemma run_history_frames: "\<exists>fs s'. run (history_frames E) s = (Inr fs, s') \<and> bystander s s'"
proof -
  have "bystander s (s\<lparr>faults := fs\<rparr>)" for fs by (simp add: bystander_def)
  with run_history [of E s] show ?thesis by blast
qed

text \<open>The sections that run beside the connection table: loading the history, a frame of the client, a request.\<close>

lemma history_bystander:
  obtains fs s' where "run (history_frames E) s = (Inr fs, s')" "bystander s s'"
  using run_history_frames by blast

lemma section_bystander:
  assumes "group_ok c" "conn_at i c (GText u r q (Act g))"
  shows "bystander (gsrv c) (fst (g (gsrv c)))" "quiet_proc (snd (g (gsrv c)))"
proof -
  have "quiet_proc (Act g)" using assms by (auto simp: group_ok_def dest: nth_mem)
  from aside_step [OF this] show "bystander (gsrv c) (fst (g (gsrv c)))" "quiet_proc (snd (g (gsrv c)))" by auto
qed

lemma served_bystander:
  assumes "group_ok c" "i < length (reqs c)" "reqs c ! i = Act g"
  shows "bystander (gsrv c) (fst (g (gsrv c)))" "quiet_proc (snd (g (gsrv c)))"
proof -
  have "quiet_proc (Act g)" using assms unfolding group_ok_def by (metis nth_mem)
  from aside_step [OF this] show "bystander (gsrv c) (fst (g (gsrv c)))" "quiet_proc (snd (g (gsrv c)))" by auto
qed

lemma group_step_ok: "group_step E c e c' \<Longrightarrow> group_ok c \<Longrightarrow> group_ok c'"
proof (induction rule: group_step.induct)
  case (g_accept u r c)
  then show ?case using table_ok_append by (auto simp: group_ok_def held_def new_conn_def)
next
  case (g_open i c u r)
  then have "held c ! i = None" "i < length (held c)" by (simp_all add: held_def)
  with g_open table_ok_connect [of "group_conns (gsrv c)" "next_queue (gsrv c)" "held c" i u] show ?case
    unfolding conn_start_def by (simp add: run_connect) (rule group_ok_set; simp add: group_ok_def)
next
  case (g_history i c u r q ok)
  obtain fs s' where h: "run (history_frames E) (gsrv c) = (Inr fs, s')" "bystander (gsrv c) s'" by (rule history_bystander)
  then show ?case using g_history unfolding conn_history_def
    by (simp only: h(1) fst_conv snd_conv prod.case sum.case) (rule group_ok_keep; simp add: bystander_def)
next
  case (g_section i c u r q g)
  with section_bystander [OF g_section(2,1)] show ?case by (intro group_ok_keep) (auto simp: bystander_def)
next
  case (g_leave i c u q)
  then have "held c ! i = Some (u, q)" "i < length (held c)" by (simp_all add: held_def)
  with g_leave table_ok_disconnect [of "group_conns (gsrv c)" "next_queue (gsrv c)" "held c" i u q] show ?case
    by (simp add: run_disconnect) (rule group_ok_set; simp add: group_ok_def)
next
  case (g_request p c)
  then show ?case by (simp add: group_ok_def quiet_proc_def aside.local_served held_def)
next
  case (g_serve j c g)
  with served_bystander [OF g_serve(3,1,2)] show ?case
    by (intro group_ok_bystander)
      (auto simp: group_ok_def dest!: set_update_subset_insert [THEN subsetD])
next
  case (g_env c s)
  then show ?case using group_ok_bystander [of c s "reqs c"] environment_bystander by (simp add: group_ok_def)
qed (rule group_ok_keep;
    auto simp: conn_incoming_def conn_forward_def Let_def group_text_quiet run_broadcast broadcasted_def
      split: incoming.splits ws_msg.splits if_splits)+

lemma group_reach_ok: "group_reach E c \<Longrightarrow> group_ok c"
proof -
  have "group_ok c" if "group_run E (group_start (new_state d cfg ''group'')) es c" for d cfg es
    using that
  proof (induction rule: group_run.induct)
    case g_nil
    then show ?case by (simp add: group_ok_def group_start_def held_def new_state_def table_ok_def hm.ok_empty)
  qed (rule group_step_ok)
  then show "group_reach E c \<Longrightarrow> group_ok c" by (auto simp: group_reach_def)
qed

text \<open>C22. An entry in the table of connections, which is what \<open>/info\<close> and \<open>/group/members\<close> report as online, always belongs to a running connection of that user, with the queue of that connection.\<close>

theorem online_is_connected:
  assumes "group_reach E c" "map_of (group_conns (gsrv c)) u = Some q"
  shows "\<exists>i < length (conns c). holds (task (conns c ! i)) = Some (u, q)"
proof -
  have "Some (u, q) \<in> set (held c)"
    using group_reach_ok [OF assms(1)] map_of_SomeD [OF assms(2)] by (auto simp: group_ok_def table_ok_def)
  then show ?thesis by (auto simp: held_def in_set_conv_nth)
qed

section \<open>Delivery\<close>

text \<open>What connection \<open>i\<close> with queue \<open>q\<close> was or will be forwarded.\<close>

definition stream :: "nat \<Rightarrow> nat \<Rightarrow> group_conf \<Rightarrow> string list" where
  "stream i q c = fwd (conns c ! i) @ queues (gsrv c) q"

definition fresh :: "conn \<Rightarrow> bool" where
  "fresh k \<longleftrightarrow> (\<exists>u r. task k = GStart u r)"

definition owns :: "nat \<Rightarrow> nat \<Rightarrow> group_conf \<Rightarrow> bool" where
  "owns i q c \<longleftrightarrow> i < length (conns c) \<and> q < next_queue (gsrv c) \<and> \<not> fresh (conns c ! i) \<and>
     (\<forall>j < length (conns c). \<forall>x. held c ! j = Some x \<longrightarrow> (snd x = q \<longleftrightarrow> j = i))"

lemma owns_held: "group_ok c \<Longrightarrow> i < length (conns c) \<Longrightarrow> held c ! i = Some (u, q) \<Longrightarrow> owns i q c"
proof -
  assume a: "group_ok c" "i < length (conns c)" "held c ! i = Some (u, q)"
  then have t: "table_ok (group_conns (gsrv c)) (next_queue (gsrv c)) (held c)" by (simp add: group_ok_def)
  have len: "length (held c) = length (conns c)" by (simp add: held_def)
  have "snd x = q \<longleftrightarrow> j = i" if "j < length (conns c)" "held c ! j = Some x" for j x
    using t that a(2,3) len unfolding table_ok_def by (metis option.inject snd_conv)
  moreover have "q < next_queue (gsrv c)" using t a(2,3) len unfolding table_ok_def by (metis nth_mem snd_conv)
  moreover have "\<not> fresh (conns c ! i)" using a(2,3) by (auto simp: held_def fresh_def)
  ultimately show ?thesis using a(2) by (simp add: owns_def)
qed

lemma stream_set: "i < length (conns c) \<Longrightarrow> stream i q (set_conn j (s, k) c) =
    (if i = j then fwd k else fwd (conns c ! i)) @ queues s q"
  by (simp add: stream_def set_conn_def)

lemma prefix_broadcast: "prefix (queues s q) (queues (broadcasted f s) q)"
  by (simp add: broadcasted_def)

lemma bystander_stream: "bystander (gsrv c) s \<Longrightarrow> prefix (stream i q c) (fwd (conns c ! i) @ queues s q)"
  by (simp add: stream_def bystander_def)

lemma stream_forward:
  assumes "owns i q c" "conn_at j c (GLoop u r q')" "queues (gsrv c) q' = m # ms"
  shows "stream i q (set_conn j ((gsrv c)\<lparr>queues := (queues (gsrv c))(q' := ms)\<rparr>, conn_forward u q' m ok (conns c ! j)) c) =
    stream i q c"
proof -
  have "held c ! j = Some (u, q')" using assms(2) by (simp add: held_def)
  with assms(1,2) have own: "q' = q \<longleftrightarrow> j = i" "i < length (conns c)" by (auto simp: owns_def)
  have fwd: "fwd (conn_forward u q' m ok (conns c ! j)) = fwd (conns c ! j) @ [m]"
    by (simp add: conn_forward_def Let_def)
  show ?thesis
  proof (cases "q = q'")
    case True
    then have "i = j" using own(1) by simp
    with True own(2) assms(3) show ?thesis by (simp add: stream_set fwd) (simp add: stream_def)
  next
    case False
    then have "j \<noteq> i" using own(1) by auto
    with False own(2) show ?thesis by (auto simp: stream_set fwd) (auto simp: stream_def)
  qed
qed

lemma stream_step:
  assumes "group_step E c e c'" "group_ok c" "owns i q c"
  shows "prefix (stream i q c) (stream i q c')"
  using assms
proof (induction rule: group_step.induct)
  case (g_accept u r c)
  then show ?case by (simp add: stream_def owns_def nth_append)
next
  case (g_open j c u r)
  then show ?case by (auto simp: conn_start_def run_connect stream_set owns_def) (auto simp: stream_def)
next
  case (g_history j c u r q' ok)
  obtain fs s' where h: "run (history_frames E) (gsrv c) = (Inr fs, s')" "bystander (gsrv c) s'" by (rule history_bystander)
  then show ?case using g_history bystander_stream [OF h(2), of i q]
    by (auto simp: conn_history_def h(1) stream_set owns_def)
next
  case (g_incoming j c u r q' x ok)
  then show ?case
    by (auto simp: owns_def stream_set conn_incoming_def split: incoming.split ws_msg.split) (auto simp: stream_def)
next
  case (g_section j c u r q' g)
  with bystander_stream [OF section_bystander(1) [OF g_section(2,1)], of i q] show ?case by (auto simp: owns_def stream_set)
next
  case (g_forward j c u r q' m ms ok)
  then show ?case by (simp add: stream_forward)
next
  case (g_bye j c u)
  then show ?case using prefix_broadcast by (simp add: owns_def stream_set run_broadcast) (simp add: stream_def)
next
  case (g_serve j c g)
  from bystander_stream [OF served_bystander(1) [OF g_serve(3,1,2)], of i q] show ?case by (simp add: stream_def)
next
  case (g_env c s)
  from bystander_stream [OF environment_bystander [OF g_env(1)], of i q] show ?case by (simp add: stream_def)
qed (simp add: owns_def stream_set run_disconnect, simp add: stream_def)+

text \<open>A step leaves every entry of \<open>held\<close>, drops it, or adds one with a fresh queue.\<close>

definition grows :: "group_conf \<Rightarrow> group_conf \<Rightarrow> bool" where
  "grows c c' \<longleftrightarrow> next_queue (gsrv c) \<le> next_queue (gsrv c') \<and> length (conns c) \<le> length (conns c') \<and>
     (\<forall>j < length (conns c). fresh (conns c' ! j) \<longrightarrow> fresh (conns c ! j)) \<and>
     (\<forall>j < length (conns c'). \<forall>x. held c' ! j = Some x \<longrightarrow>
        j < length (conns c) \<and> (held c ! j = Some x \<or> fresh (conns c ! j) \<and> snd x = next_queue (gsrv c)))"

lemma grows_same: "conns c' = conns c \<Longrightarrow> next_queue (gsrv c) \<le> next_queue (gsrv c') \<Longrightarrow> grows c c'"
  by (simp add: grows_def held_def)

lemma grows_set:
  assumes "i < length (conns c)" "next_queue (gsrv c) \<le> next_queue s" "\<not> fresh k"
    and "holds (task k) = holds (task (conns c ! i)) \<or> holds (task k) = None \<or>
      fresh (conns c ! i) \<and> (\<exists>u. holds (task k) = Some (u, next_queue (gsrv c)))"
  shows "grows c (set_conn i (s, k) c)"
proof -
  have "held (set_conn i (s, k) c) ! j = (if i = j then holds (task k) else held c ! j)" if "j < length (conns c)" for j
    using that assms(1) unfolding held_set_conn by (simp add: held_def nth_list_update)
  moreover have "held c ! i = holds (task (conns c ! i))" using assms(1) by (simp add: held_def)
  ultimately show ?thesis using assms by (auto simp: grows_def set_conn_def nth_list_update)
qed

lemma group_step_grows:
  assumes "group_step E c e c'" "group_ok c"
  shows "grows c c'"
  using assms
proof (induction rule: group_step.induct)
  case (g_accept u r c)
  then show ?case by (auto simp: grows_def held_def new_conn_def nth_append split: if_splits)
next
  case (g_open j c u r)
  then show ?case by (simp add: conn_start_def run_connect) (rule grows_set; simp add: fresh_def)
next
  case (g_history j c u r q' ok)
  obtain fs s' where h: "run (history_frames E) (gsrv c) = (Inr fs, s')" "bystander (gsrv c) s'" by (rule history_bystander)
  with g_history show ?case
    unfolding conn_history_def
    by (simp only: h(1) fst_conv snd_conv prod.case sum.case) (rule grows_set; simp add: bystander_def fresh_def)
next
  case (g_section j c u r q' g)
  with section_bystander(1) [OF g_section(2,1)] show ?case by (intro grows_set) (auto simp: bystander_def fresh_def)
next
  case (g_request p c)
  then show ?case by (simp add: grows_same held_def)
next
  case (g_serve j c g)
  from served_bystander(1) [OF g_serve(3,1,2)] show ?case by (simp add: grows_same held_def bystander_def)
next
  case (g_env c s)
  then show ?case using environment_bystander by (fastforce simp: grows_same held_def bystander_def)
qed (rule grows_set;
    auto simp: fresh_def conn_incoming_def conn_forward_def Let_def run_disconnect run_broadcast broadcasted_def
      split: incoming.split ws_msg.split)+

lemma owns_step:
  assumes "group_step E c e c'" "group_ok c" "owns i q c"
  shows "owns i q c'"
proof -
  note g = group_step_grows [OF assms(1,2), unfolded grows_def]
  have "snd x = q \<longleftrightarrow> j = i" if "j < length (conns c')" "held c' ! j = Some x" for j x
    using g that assms(3) unfolding owns_def by (metis less_irrefl)
  moreover have "\<not> fresh (conns c' ! i)" using g assms(3) by (auto simp: owns_def)
  ultimately show ?thesis using g assms(3) by (auto simp: owns_def)
qed

lemma stream_run:
  assumes "group_run E c es c'" "group_ok c" "owns i q c"
  shows "prefix (stream i q c) (stream i q c') \<and> group_ok c' \<and> owns i q c'"
  using assms(1)
proof (induction rule: group_run.induct)
  case g_nil
  then show ?case using assms by simp
next
  case (g_snoc es c' e c'')
  then show ?case using stream_step owns_step group_step_ok by (metis prefix_order.trans)
qed


section \<open>Reconnecting\<close>

lemma group_run_step: "group_step E c e c' \<Longrightarrow> group_run E c [e] c'"
  using g_snoc [OF g_nil] by fastforce

lemma gsrv_set [simp]: "gsrv (set_conn i x c) = fst x"
  by (simp add: set_conn_def)

lemma length_set [simp]: "length (conns (set_conn i x c)) = length (conns c)"
  by (simp add: set_conn_def)

lemma nth_set: "i < length (conns c) \<Longrightarrow> conns (set_conn i (s, k) c) ! j = (if i = j then k else conns c ! j)"
  by (simp add: set_conn_def)

text \<open>The queue of the first connection loses its sender when the second one enters the table, and the
  queue of the second when the entry of the user is removed.\<close>

lemma replaced_senders:
  assumes ok: "table_ok T n H" and i: "H ! i = Some (u, q)" "i < length H"
  shows "q \<notin> snd ` set (AList.update u n T)" "n \<notin> snd ` set (AList.delete u (AList.update u n T))"
proof -
  have qn: "q < n" using ok i unfolding table_ok_def by (metis nth_mem snd_conv)
  have own: "fst x = u" if x: "x \<in> set T" "snd x = q" for x
    using x ok i unfolding table_ok_def by (metis fst_conv in_set_conv_nth option.inject snd_conv)
  have low: "snd x < n" if "x \<in> set T" for x using that ok unfolding table_ok_def by blast
  have "keys_ok (AList.update u n T)" using ok by (simp add: table_ok_def hm.ok_put)
  then have at: "map_of (AList.update u n T) (fst x) = Some (snd x)" if "x \<in> set (AList.update u n T)" for x
    using that by (simp add: keys_ok_def map_of_is_SomeI)
  have entries: "x = (u, n) \<or> fst x \<noteq> u \<and> x \<in> set T" if "x \<in> set (AList.update u n T)" for x
    using at [OF that] by (cases x) (auto simp: map_of_update split: if_splits dest: map_of_SomeD)
  show "q \<notin> snd ` set (AList.update u n T)" using entries own qn by fastforce
  show "n \<notin> snd ` set (AList.delete u (AList.update u n T))"
    using entries low by (fastforce simp: AList.delete_eq)
qed

text \<open>
  The second connection of a user: its \<open>insert\<close> drops the sender of the first, whose loop therefore
  ends; but the first then removes the entry under the user's name, which is the second's.
\<close>

text \<open>C38. When a user opens a second connection, the first one ends, and on its way out removes the entry of the second: without any client doing anything, the second connection ends too and the user is offline.\<close>

theorem reconnect_ends:
  assumes "group_reach E c" "i \<noteq> j" "conn_at i c (GLoop u r q)" "conn_at j c (GStart u r')"
    and "queues (gsrv c) q = []"
  shows "\<exists>c'. group_run E c [Opening j, History j True, Hangup i, Leave i, Bye i, Hangup j] c' \<and>
    task (conns c' ! i) = GGone \<and> task (conns c' ! j) = GStop u (next_queue (gsrv c)) \<and>
    map_of (group_conns (gsrv c')) u = None"
proof -
  let ?n = "next_queue (gsrv c)"
  have ok: "table_ok (group_conns (gsrv c)) ?n (held c)"
    using group_reach_ok [OF assms(1)] by (simp add: group_ok_def)
  have hi: "held c ! i = Some (u, q)" "i < length (held c)" using assms(3) by (simp_all add: held_def)
  have qn: "q < ?n" using ok hi unfolding table_ok_def by (metis nth_mem snd_conv)
  let ?c1 = "set_conn j (conn_start u r' (gsrv c, conns c ! j)) c"
  have 1: "group_step E c (Opening j) ?c1" using assms(4) by (rule g_open)
  have c1: "conn_at i ?c1 (GLoop u r q)" "conn_at j ?c1 (GOpen u r' ?n)" "queues (gsrv ?c1) ?n = []" "queues (gsrv ?c1) q = []"
    "group_conns (gsrv ?c1) = AList.update u ?n (group_conns (gsrv c))" "length (conns ?c1) = length (conns c)"
    using assms(2-5) qn by (simp_all add: conn_start_def run_connect nth_set)
  obtain fs where h: "run (history_frames E) (gsrv ?c1) = (Inr fs, (gsrv ?c1)\<lparr>faults := tl (faults (gsrv ?c1))\<rparr>)"
    using run_history by blast
  let ?c2 = "set_conn j (conn_history E u r' ?n True (gsrv ?c1, conns ?c1 ! j)) ?c1"
  have 2: "group_step E ?c1 (History j True) ?c2" using c1(2) by (rule g_history)
  have c2: "conn_at i ?c2 (GLoop u r q)" "conn_at j ?c2 (GLoop u r' ?n)" "queues (gsrv ?c2) ?n = []" "queues (gsrv ?c2) q = []"
    "group_conns (gsrv ?c2) = AList.update u ?n (group_conns (gsrv c))"
    using c1 assms(2) by (simp_all only: conn_history_def h fst_conv snd_conv prod.case sum.case) (simp_all add: nth_set)
  note away = replaced_senders(1) [OF ok hi] and gone = replaced_senders(2) [OF ok hi]
  let ?c3 = "set_conn i (gsrv ?c2, (conns ?c2 ! i)\<lparr>task := GStop u q\<rparr>) ?c2"
  have 3: "group_step E ?c2 (Hangup i) ?c3" using c2 away by (intro g_hangup) simp_all
  let ?c4 = "set_conn i (snd (run (disconnect u) (gsrv ?c3)), (conns ?c3 ! i)\<lparr>task := GBye u\<rparr>) ?c3"
  have c3: "conn_at i ?c3 (GStop u q)" "conn_at j ?c3 (GLoop u r' ?n)" using c2 assms(2) by (simp_all add: nth_set)
  have 4: "group_step E ?c3 (Leave i) ?c4" using c3(1) by (rule g_leave)
  have c4: "conn_at i ?c4 (GBye u)" "conn_at j ?c4 (GLoop u r' ?n)" "queues (gsrv ?c4) ?n = []"
    "group_conns (gsrv ?c4) = AList.delete u (AList.update u ?n (group_conns (gsrv c)))"
    using c3 c2 assms(2) by (simp_all add: nth_set run_disconnect)
  let ?c5 = "set_conn i (snd (run (broadcast (leave_frame E u)) (gsrv ?c4)), (conns ?c4 ! i)\<lparr>task := GGone\<rparr>) ?c4"
  have 5: "group_step E ?c4 (Bye i) ?c5" using c4(1) by (rule g_bye)
  have c5: "conn_at i ?c5 GGone" "conn_at j ?c5 (GLoop u r' ?n)" "queues (gsrv ?c5) ?n = []"
    "group_conns (gsrv ?c5) = AList.delete u (AList.update u ?n (group_conns (gsrv c)))"
    using c4 assms(2) gone by (simp_all add: nth_set run_broadcast) (simp add: broadcasted_def)
  let ?c6 = "set_conn j (gsrv ?c5, (conns ?c5 ! j)\<lparr>task := GStop u ?n\<rparr>) ?c5"
  have 6: "group_step E ?c5 (Hangup j) ?c6" using c5 gone by (intro g_hangup) simp_all
  have "task (conns ?c6 ! i) = GGone" "task (conns ?c6 ! j) = GStop u ?n" "map_of (group_conns (gsrv ?c6)) u = None"
    using c5 assms(2) by (simp_all add: nth_set map_of_delete)
  moreover have "group_run E c [Opening j, History j True, Hangup i, Leave i, Bye i, Hangup j] ?c6"
    using g_snoc [OF g_snoc [OF g_snoc [OF g_snoc [OF g_snoc [OF g_snoc [OF g_nil 1] 2] 3] 4] 5] 6] by simp
  ultimately show ?thesis by blast
qed

section \<open>A sample execution\<close>

lemma reach_start: "group_reach E (group_start (new_state d cfg ''group''))"
  unfolding group_reach_def using g_nil by blast

lemma reach_run: "group_reach E c \<Longrightarrow> group_run E c es c' \<Longrightarrow> group_reach E c'"
proof -
  assume "group_run E c es c'"
  then show "group_reach E c \<Longrightarrow> group_reach E c'"
  proof (induction rule: group_run.induct)
    case g_nil
    then show ?case .
  next
    case (g_snoc es c' e c'')
    then show ?case unfolding group_reach_def using group_run.g_snoc by blast
  qed
qed

lemma group_run_append: "group_run E c' es' c'' \<Longrightarrow> group_run E c es c' \<Longrightarrow> group_run E c (es @ es') c''"
proof (induction rule: group_run.induct)
  case g_nil
  then show ?case by simp
next
  case (g_snoc es' c1 e c2)
  then show ?case using group_run.g_snoc [of E c "es @ es'" c1 e c2] by simp
qed

text \<open>A request that runs to its end.\<close>

lemma serve_run:
  assumes "j < length (reqs c)"
  shows "\<exists>es. group_run E c es (c\<lparr>gsrv := snd (run (reqs c ! j) (gsrv c)),
      reqs := (reqs c)[j := Ret (fst (run (reqs c ! j) (gsrv c)))]\<rparr>)"
  using assms
proof (induction "reqs c ! j" arbitrary: c)
  case (Ret r)
  have "c\<lparr>gsrv := gsrv c, reqs := reqs c\<rparr> = c" by simp
  then have "group_run E c [] (c\<lparr>gsrv := gsrv c, reqs := reqs c\<rparr>)" by (metis g_nil)
  with Ret show ?case by (metis list_update_id prod.collapse prod.inject run.simps(1))
next
  case (Act g)
  let ?c = "c\<lparr>gsrv := fst (g (gsrv c)), reqs := (reqs c)[j := snd (g (gsrv c))]\<rparr>"
  have step: "group_run E c ([] @ [Serve j]) ?c" using Act g_serve g_snoc g_nil by metis
  have "reqs ?c ! j = snd (g (gsrv c))" "j < length (reqs ?c)" using Act.prems by simp_all
  then obtain es where "group_run E ?c es (?c\<lparr>gsrv := snd (run (reqs ?c ! j) (gsrv ?c)),
      reqs := (reqs ?c)[j := Ret (fst (run (reqs ?c ! j) (gsrv ?c)))]\<rparr>)"
    using Act.hyps(1) by metis
  from group_run_append [OF this step] show ?case
    using Act.prems Act.hyps(2) [symmetric] by (auto simp: run_Act)
qed

lemma reach_request:
  assumes "group_reach E c" "served E ''group'' p" "run p (gsrv c) = (r, s)"
  shows "\<exists>ps. group_reach E (c\<lparr>gsrv := s, reqs := ps\<rparr>)"
proof -
  let ?c = "c\<lparr>reqs := p # reqs c\<rparr>"
  have "group_reach E ?c" using reach_run [OF assms(1)] g_snoc [OF g_nil g_request [OF assms(2)]] by blast
  moreover obtain es where "group_run E ?c es (?c\<lparr>gsrv := s, reqs := (reqs ?c)[0 := Ret r]\<rparr>)"
    using serve_run [of 0 ?c E] assms(3) by auto
  ultimately show ?thesis using reach_run by fastforce
qed

lemma reach_step: "group_reach E c \<Longrightarrow> group_step E c e c' \<Longrightarrow> group_reach E c'"
  using reach_run g_snoc [OF g_nil] by metis

text \<open>A member opens a WebSocket, and a second one once the first is in its loop.\<close>

lemma sample_upgrade:
  assumes "faults s = []" "members (pool s) = [sample_owner]"
  shows "run (group_ws sample_ext (Some sample_token)) s =
    (Inr switching_protocols, s\<lparr>spawned := spawned s @ [GroupWs ''ann'' ''owner'']\<rparr>)"
  using assms by (simp add: group_ws_def run_pbind run_unwrap_or select_member_def run_sql_query run_relay_sections)
    (simp add: sample_owner_def)

lemma sample_served: "served sample_ext ''group'' (group_ws sample_ext (Some sample_token))"
  unfolding served_def by (intro exI [of _ "(''GET'', ''/group/ws'')"] exI [of _ Group_Socket] conjI h_group_ws)
    (simp add: build_router_def group_routes_def)

lemma reach_accept:
  assumes "group_reach sample_ext c" "faults (gsrv c) = []" "members (pool (gsrv c)) = [sample_owner]" "spawned (gsrv c) = []"
  shows "\<exists>ps. group_reach sample_ext (c\<lparr>reqs := ps, conns := conns c @ [new_conn ''ann'' ''owner'']\<rparr>)"
proof -
  obtain ps where "group_reach sample_ext (c\<lparr>gsrv := (gsrv c)\<lparr>spawned := [GroupWs ''ann'' ''owner'']\<rparr>, reqs := ps\<rparr>)"
    using reach_request [OF assms(1) sample_served sample_upgrade [OF assms(2,3)]] assms(4) by auto
  from reach_step [OF this g_accept] have
    "group_reach sample_ext (c\<lparr>gsrv := (gsrv c)\<lparr>spawned := []\<rparr>, reqs := ps, conns := conns c @ [new_conn ''ann'' ''owner'']\<rparr>)"
    by (cases c) simp
  moreover have "(gsrv c)\<lparr>spawned := []\<rparr> = gsrv c" using assms(4) by (cases "gsrv c") simp
  ultimately have "group_reach sample_ext (c\<lparr>reqs := ps, conns := conns c @ [new_conn ''ann'' ''owner'']\<rparr>)"
    by (cases c) simp
  then show ?thesis by blast
qed

lemma reach_open:
  assumes "group_reach E c" "conn_at i c (GStart u r)"
  shows "\<exists>c'. group_reach E c' \<and> conn_at i c' (GLoop u r (next_queue (gsrv c))) \<and> length (conns c') = length (conns c) \<and>
    gsrv c' = (gsrv c)\<lparr>queues := (queues (gsrv c))(next_queue (gsrv c) := []), next_queue := Suc (next_queue (gsrv c)),
      group_conns := AList.update u (next_queue (gsrv c)) (group_conns (gsrv c)), faults := tl (faults (gsrv c))\<rparr>"
proof -
  define c1 where "c1 = set_conn i (conn_start u r (gsrv c, conns c ! i)) c"
  have 1: "group_reach E c1" unfolding c1_def by (rule reach_step [OF assms(1) g_open [OF assms(2)]])
  have at1: "conn_at i c1 (GOpen u r (next_queue (gsrv c)))" "length (conns c1) = length (conns c)"
    "gsrv c1 = (gsrv c)\<lparr>queues := (queues (gsrv c))(next_queue (gsrv c) := []), next_queue := Suc (next_queue (gsrv c)),
      group_conns := AList.update u (next_queue (gsrv c)) (group_conns (gsrv c))\<rparr>"
    using assms(2) by (simp_all add: c1_def conn_start_def run_connect nth_set)
  obtain fs where h: "run (history_frames E) (gsrv c1) = (Inr fs, (gsrv c1)\<lparr>faults := tl (faults (gsrv c1))\<rparr>)"
    using run_history by blast
  define c2 where "c2 = set_conn i (conn_history E u r (next_queue (gsrv c)) True (gsrv c1, conns c1 ! i)) c1"
  have "group_reach E c2" unfolding c2_def by (rule reach_step [OF 1 g_history [OF at1(1)]])
  moreover have "conn_at i c2 (GLoop u r (next_queue (gsrv c)))" "length (conns c2) = length (conns c)"
    "gsrv c2 = (gsrv c1)\<lparr>faults := tl (faults (gsrv c1))\<rparr>"
    using at1(1,2) by (simp_all add: c2_def conn_history_def h nth_set)
  ultimately show ?thesis using at1(3) by auto
qed

lemma sample_two:
  "\<exists>c. group_reach sample_ext c \<and> conn_at 0 c (GLoop ''ann'' ''owner'' 0) \<and> conn_at 1 c (GStart ''ann'' ''owner'') \<and>
     queues (gsrv c) 0 = [] \<and> group_conns (gsrv c) = [(''ann'', 0)] \<and> next_queue (gsrv c) = 1"
proof -
  let ?s = "new_state (pool sample_group) sample_config ''group''"
  have s: "faults ?s = []" "pool ?s = pool sample_group" "spawned ?s = []" "next_queue ?s = 0" "group_conns ?s = []"
    by (simp_all add: new_state_def)
  obtain c1 where 1: "group_reach sample_ext c1" "conn_at 0 c1 (GStart ''ann'' ''owner'')" "gsrv c1 = ?s" "length (conns c1) = 1"
    using reach_accept [OF reach_start, of "pool sample_group" sample_config] s
    by (fastforce simp: group_start_def new_conn_def)
  obtain c2 where 2: "group_reach sample_ext c2" "conn_at 0 c2 (GLoop ''ann'' ''owner'' 0)" "length (conns c2) = 1"
    "gsrv c2 = ?s\<lparr>queues := (queues ?s)(0 := []), next_queue := 1, group_conns := [(''ann'', 0)], faults := []\<rparr>"
    using reach_open [OF 1(1,2)] 1(3,4) s by auto
  obtain ps where 3: "group_reach sample_ext (c2\<lparr>reqs := ps, conns := conns c2 @ [new_conn ''ann'' ''owner'']\<rparr>)"
    using reach_accept [OF 2(1)] 2(4) s by auto
  show ?thesis
    by (rule exI, intro conjI, rule 3) (use 2 in \<open>simp_all add: nth_append new_conn_def\<close>)
qed

theorem online_is_connected_witness:
  "\<exists>c :: group_conf. map_of (group_conns (gsrv c)) ''ann'' = Some 0 \<and> (\<exists>i < length (conns c). holds (task (conns c ! i)) = Some (''ann'', 0))"
proof -
  obtain c where c: "group_reach sample_ext c" "group_conns (gsrv c) = [(''ann'', 0)]" using sample_two by blast
  have on: "map_of (group_conns (gsrv c)) ''ann'' = Some 0" using c(2) by simp
  show ?thesis by (rule exI, rule conjI, rule on, rule online_is_connected [OF c(1) on])
qed

theorem reconnect_ends_witness:
  "\<exists>c'. group_reach sample_ext c' \<and> task (conns c' ! 0) = GGone \<and> task (conns c' ! 1) = GStop ''ann'' 1 \<and>
     map_of (group_conns (gsrv c')) ''ann'' = None"
proof -
  obtain c where c: "group_reach sample_ext c" "conn_at 0 c (GLoop ''ann'' ''owner'' 0)" "conn_at 1 c (GStart ''ann'' ''owner'')"
    "queues (gsrv c) 0 = []" "next_queue (gsrv c) = 1" using sample_two by blast
  obtain c' es where c': "group_run sample_ext c es c'" "task (conns c' ! 0) = GGone" "task (conns c' ! 1) = GStop ''ann'' 1"
    "map_of (group_conns (gsrv c')) ''ann'' = None"
    using reconnect_ends [OF c(1) _ c(2-4)] c(5) by auto
  show ?thesis by (rule exI, intro conjI, rule reach_run [OF c(1) c'(1)], rule c'(2), rule c'(3), rule c'(4))
qed


end
