(* ===== verification/Relay_Server.thy ===== *)
theory Relay_Server
  imports Server Relay_Ws Process_Rules
begin

text \<open>
  Relay sessions in the whole server. The locale \<open>relay_frame\<close> is what a property that only looks at the
  channels and the pending table needs to survive every other handler, \<open>relay_shrink\<close> what it needs to survive
  the removal of entries; both are interpreted on who holds the two ends of a session, which gives that each end has
  one task, and on what a session sees of the rest of the server, which justifies the step \<open>Others\<close> of
  \<open>Relay_Ws\<close>. Last, the one way two creators can get hold of one session.
\<close>

section \<open>What the other handlers leave alone\<close>

fun ends_relay :: "ws_task \<Rightarrow> bool" where
  "ends_relay (GroupWs u r) = False"
| "ends_relay (CreatorWs a sid t) = True"
| "ends_relay (JoinerWs a) = True"

definition relay_core :: "app_state \<Rightarrow> (string, pending_relay) hmap \<times> (nat \<Rightarrow> channels) \<times> nat \<times> ws_task list \<times> nat" where
  "relay_core s = (relay_pending s, arcs s, next_arc s, filter ends_relay (spawned s), mono_now s)"

locale relay_frame =
  fixes I :: "app_state \<Rightarrow> bool"
  assumes same_core: "I s \<Longrightarrow> relay_core s' = relay_core s \<Longrightarrow> I s'"
begin

lemma frame_atomic: "(\<And>s. relay_core (snd (m s)) = relay_core s) \<Longrightarrow> safe I (atomic m)"
  by (rule safe_atomic) (rule same_core)

lemma frame_sql: "safe I (sql f)"
  by (rule safe_sql_frame, erule same_core) (simp add: relay_core_def)

lemma frame_sections:
  "safe I (limit_register ip)" "safe I (limit_lookup ip)" "safe I (expires_at E c)" "safe I (init_session sid r)"
  "safe I (drop_init sid)" "safe I (retain_init now grace)" "safe I (broadcast f)" "safe I (connect u)"
  "safe I (disconnect u)" "safe I (on_upgrade (GroupWs u role))"
  unfolding limit_register_def limit_lookup_def expires_at_def relay_sections broadcast_def connect_def disconnect_def
  by (intro safe_rules frame_atomic; simp add: relay_core_def split: prod.split)+

lemma frame_auth: "safe I (resolve_token E hs)" "safe I (resolve_member E hs)" "safe I get_member_count"
  unfolding resolve_token_def resolve_member_def get_member_count_def by (intro safe_rules frame_sql)+

lemma frame_write: "safe I (register_write E c rnd rq)"
  unfolding register_write_def issue_token_def Let_def by (intro safe_rules frame_sql frame_sections)

lemma frame_discovery:
  "safe I (info E)" "safe I (register E rnd peer rq)" "safe I (lookup E peer name)" "safe I (search E q)"
  "safe I (update_presence E hs rq')" "safe I (heartbeat E hs)" "safe I (unregister E hs)"
  "safe I (token_refresh E rnd hs)" "safe I (invite_create E r hs)"
  unfolding info_def register_def check_version_def check_invite_def check_username_def check_pubkey_def check_ip_def
    check_email_def check_max_users_def lookup_def search_def update_presence_def heartbeat_def unregister_def
    token_refresh_def issue_token_def invite_create_def Let_def
  by (intro safe_rules frame_auth frame_sections frame_write frame_sql)+

lemma frame_group:
  "safe I group_info" "safe I (group_join E fresh secret nonce rnd join_rq)" "safe I (group_leave E hs)"
  "safe I (group_members E hs)" "safe I (group_history E hs)" "safe I (group_ws E token)"
  "safe I (group_text E u r t)" "safe I (history_frames E)"
  unfolding group_info_def group_join_def check_members_def member_key_def get_or_create_group_key_def
    encrypt_group_key_def Let_def group_leave_def group_members_def group_history_def group_ws_def group_text_def
    post_message_def history_frames_def
  by (intro safe_rules frame_auth frame_sections frame_sql)+

lemma frame_relay: "safe I (relay_create E uuid rnd_a rnd_b hs)" "safe I (relay_join E hs sid)"
  unfolding relay_create_def check_sessions_def open_session_def relay_join_def Let_def
  by (intro safe_rules frame_auth frame_sections frame_sql)+

lemma frame_handles: "handles E e p \<Longrightarrow> e \<noteq> Relay_Socket \<Longrightarrow> safe I p"
  by (erule handles.cases) (simp_all add: frame_discovery frame_group frame_relay)

end

text \<open>The clean-up task, and a waiting creator that gives up, take entries out of the table.\<close>

locale relay_shrink = relay_frame +
  assumes fewer_pending: "I s \<Longrightarrow> I (s\<lparr>relay_pending := filter P (relay_pending s)\<rparr>)"
begin

lemma shrink_cleanup: "safe I cleanup_pass"
  unfolding cleanup_pass_def retain_pending_def
  by (intro safe_rules frame_sections safe_atomic) (simp add: fewer_pending)

lemma shrink_background: "background E m p \<Longrightarrow> safe I p"
  by (erule background.cases)
    (simp_all add: detached_def safe_pmap frame_group frame_sections shrink_cleanup)

lemma shrink_delete: "I s \<Longrightarrow> I (s\<lparr>relay_pending := AList.delete sid (relay_pending s)\<rparr>)"
  by (simp add: AList.delete_eq fewer_pending)

end

section \<open>Two ends\<close>

fun creator_arc :: "ws_task \<Rightarrow> nat list" where
  "creator_arc (CreatorWs a sid t) = [a]"
| "creator_arc (JoinerWs a) = []"
| "creator_arc (GroupWs u r) = []"

fun joiner_arc :: "ws_task \<Rightarrow> nat list" where
  "joiner_arc (JoinerWs a) = [a]"
| "joiner_arc (CreatorWs a sid t) = []"
| "joiner_arc (GroupWs u r) = []"

definition creators :: "app_state \<Rightarrow> nat multiset" where
  "creators s = mset (concat (map creator_arc (spawned s)))"

definition joiners :: "app_state \<Rightarrow> nat multiset" where
  "joiners s = mset (map (pr_arc \<circ> snd) (relay_pending s)) + mset (concat (map joiner_arc (spawned s)))"

lemma arcs_core:
  "concat (map creator_arc ts) = concat (map creator_arc (filter ends_relay ts))"
  "concat (map joiner_arc ts) = concat (map joiner_arc (filter ends_relay ts))"
proof -
  have "\<not> ends_relay t \<Longrightarrow> creator_arc t = [] \<and> joiner_arc t = []" for t by (cases t) auto
  then show "concat (map creator_arc ts) = concat (map creator_arc (filter ends_relay ts))"
    "concat (map joiner_arc ts) = concat (map joiner_arc (filter ends_relay ts))"
    by (induction ts) auto
qed

interpretation creators: relay_shrink "shrinks creators next_arc s0" for s0
proof
  show "shrinks creators next_arc s0 s'" if "shrinks creators next_arc s0 s" "relay_core s' = relay_core s" for s0 s s'
    using that arcs_core(1) [of "spawned s"] arcs_core(1) [of "spawned s'"] by (simp add: relay_core_def creators_def)
qed (simp add: creators_def)

interpretation joiners: relay_shrink "shrinks joiners next_arc s0" for s0
proof
  show "shrinks joiners next_arc s0 s'" if "shrinks joiners next_arc s0 s" "relay_core s' = relay_core s" for s0 s s'
    using that arcs_core(2) [of "spawned s"] arcs_core(2) [of "spawned s'"] by (simp add: relay_core_def joiners_def)
next
  fix s0 s :: app_state and P
  have "mset (map (pr_arc \<circ> snd) (filter P (relay_pending s))) \<subseteq># mset (map (pr_arc \<circ> snd) (relay_pending s))"
    by (simp add: image_mset_subseteq_mono mset_filter)
  then show "shrinks joiners next_arc s0 (s\<lparr>relay_pending := filter P (relay_pending s)\<rparr>)" if "shrinks joiners next_arc s0 s"
    using that by (auto simp: joiners_def intro: subset_mset.order_trans subset_mset.add_mono)
qed

text \<open>An upgrade is the one request that makes and moves arcs.\<close>

lemma mset_arcs_put: "mset (map (pr_arc \<circ> snd) (AList.update k v m)) \<subseteq># add_mset (pr_arc v) (mset (map (pr_arc \<circ> snd) m))"
  by (induction m) (auto intro: subset_mset.order_trans mset_subset_eq_add_right simp: add_mset_commute)

lemma mset_arcs_take:
  "map_of m k = Some v \<Longrightarrow> add_mset (pr_arc v) (mset (map (pr_arc \<circ> snd) (AList.delete k m))) \<subseteq># mset (map (pr_arc \<circ> snd) m)"
proof (induction m)
  case (Cons x m)
  have "mset (map (pr_arc \<circ> snd) (AList.delete k m)) \<subseteq># mset (map (pr_arc \<circ> snd) m)"
    by (simp add: AList.delete_eq image_mset_subseteq_mono mset_filter)
  with Cons show ?case by (cases x) (auto simp: comp_def split: if_splits)
qed simp



lemma creators_sections:
  "carries creators next_arc (got (\<lambda>p. {#pr_arc p#})) (new_arc h) {#}"
  "carries creators next_arc (\<lambda>_. {#}) (on_upgrade (CreatorWs a sid t)) {#a#}"
  "carries creators next_arc (\<lambda>_. {#}) (on_upgrade (JoinerWs a)) {#}"
  unfolding new_arc_def on_upgrade_def by (rule carries_atomic; simp add: creators_def)+



lemma joiners_sections:
  "carries joiners next_arc (got (\<lambda>p. {#pr_arc p#})) (new_arc h) {#}"
  "carries joiners next_arc (got (\<lambda>_. {#})) (put_pending sid p) {#pr_arc p#}"
  "carries joiners next_arc (got (\<lambda>x. case x of None \<Rightarrow> {#} | Some p \<Rightarrow> {#pr_arc p#}))
     (atomic (\<lambda>s. map_prod Inr id (take_pending hash sid s))) {#}"
  "carries joiners next_arc (\<lambda>_. {#}) (on_upgrade (CreatorWs a sid t)) {#}"
  "carries joiners next_arc (\<lambda>_. {#}) (on_upgrade (JoinerWs a)) {#a#}"
proof -
  show "carries joiners next_arc (got (\<lambda>p. {#pr_arc p#})) (new_arc h) {#}"
    "carries joiners next_arc (\<lambda>_. {#}) (on_upgrade (CreatorWs a sid t)) {#}"
    "carries joiners next_arc (\<lambda>_. {#}) (on_upgrade (JoinerWs a)) {#a#}"
    unfolding new_arc_def on_upgrade_def by (rule carries_atomic; simp add: joiners_def)+
  show "carries joiners next_arc (got (\<lambda>_. {#})) (put_pending sid p) {#pr_arc p#}"
    unfolding put_pending_def
    by (rule carries_atomic) (use mset_arcs_put [of sid p] in \<open>simp_all add: joiners_def\<close>)
  show "carries joiners next_arc (got (\<lambda>x. case x of None \<Rightarrow> {#} | Some p \<Rightarrow> {#pr_arc p#}))
     (atomic (\<lambda>s. map_prod Inr id (take_pending hash sid s))) {#}"
    by (rule carries_atomic)
      (simp_all add: joiners_def take_pending_def mset_arcs_take [unfolded mset_map] split: option.split)
qed

lemma safe_pending: "safe (shrinks creators next_arc s0) (put_pending sid p)"
  "safe (shrinks creators next_arc s0) (atomic (\<lambda>s. map_prod Inr id (take_pending hash sid s)))"
  unfolding put_pending_def take_pending_def
  by (rule safe_atomic, simp add: creators_def split: option.split)+



lemma carries_relay_ws:
  "carries creators next_arc (\<lambda>_. {#}) (relay_ws E sid token) {#}"
  "carries joiners next_arc (\<lambda>_. {#}) (relay_ws E sid token) {#}"
proof -
  note drop = creators.frame_sections(5) joiners.frame_sections(5)
  show "carries creators next_arc (\<lambda>_. {#}) (relay_ws E sid token) {#}"
    unfolding relay_ws_def Let_def
    by (auto split: option.split intro!: carries_pure carries_reads carries_pbind [OF creators_sections(1)] carries_on [OF drop(1)]
        carries_on [OF safe_pending(1)] carries_on [OF safe_pending(2)] creators_sections)
  show "carries joiners next_arc (\<lambda>_. {#}) (relay_ws E sid token) {#}"
    unfolding relay_ws_def Let_def
    by (auto split: option.split intro!: carries_pure carries_reads carries_pbind [OF joiners_sections(1)] carries_on [OF drop(2)]
        carries_pbind [OF joiners_sections(2)] carries_pbind [OF joiners_sections(3)] joiners_sections)
qed

lemma carries_served:
  assumes "served E m p \<or> background E m p"
  shows "carries creators next_arc (\<lambda>_. {#}) p {#}" "carries joiners next_arc (\<lambda>_. {#}) p {#}"
proof -
  have "carries creators next_arc (\<lambda>_. {#}) p {#} \<and> carries joiners next_arc (\<lambda>_. {#}) p {#}"
    using assms
  proof (cases rule: served_cases)
    case (request e)
    show ?thesis
    proof (cases "e = Relay_Socket")
      case True
      with request carries_relay_ws show ?thesis by auto
    next
      case False
      with request show ?thesis by (auto intro: carries_shrinks creators.frame_handles joiners.frame_handles)
    qed
  next
    case task
    then show ?thesis by (auto intro: carries_shrinks creators.shrink_background joiners.shrink_background)
  qed
  then show "carries creators next_arc (\<lambda>_. {#}) p {#}" "carries joiners next_arc (\<lambda>_. {#}) p {#}" by simp_all
qed

lemma carries_environment:
  assumes "environment s s'"
  shows "shrinks creators next_arc s s'" "shrinks joiners next_arc s s'"
  using assms
  by (cases; simp add: creators_def joiners_def refresh_step_def AList.delete_eq mset_filter image_mset_subseteq_mono
      split: sum.split)+



text \<open>C7. In every interleaving of the server's requests and tasks, a channel pair of a relay session has at most
  one task on the creator's end and at most one on the joiner's, and a session that still waits in the pending
  table has no joiner: the two ends of a session are each handed out once.\<close>

theorem two_ends:
  assumes "server_reach E c d m (s, ps)"
  shows "distinct (concat (map creator_arc (spawned s))) \<and> distinct (concat (map joiner_arc (spawned s))) \<and>
    (\<forall>(sid, p) \<in> set (relay_pending s). JoinerWs (pr_arc p) \<notin> set (spawned s))"
proof -
  have start: "creators (new_state d c m) = {#}" "joiners (new_state d c m) = {#}"
    by (simp_all add: creators_def joiners_def new_state_def)
  note reach = assms [unfolded server_reach_def]
  have "owned_once creators next_arc (s, ps)" "owned_once joiners next_arc (s, ps)"
    using owned_once_reach [OF reach, where held = creators and bound = next_arc, OF start(1) carries_served(1) [of E m] carries_environment(1)]
      owned_once_reach [OF reach, where held = joiners and bound = next_arc, OF start(2) carries_served(2) [of E m] carries_environment(2)]
    by simp_all
  then obtain R1 R2 where "once (creators s + R1) (next_arc s)" "once (joiners s + R2) (next_arc s)"
    by (auto simp: owned_once_def)
  then have "once (mset (concat (map creator_arc (spawned s))) + R1) (next_arc s)"
    "once (mset (concat (map joiner_arc (spawned s))) + (mset (map (pr_arc \<circ> snd) (relay_pending s)) + R2)) (next_arc s)"
    by (simp_all only: creators_def joiners_def ac_simps)
  note once_distinct [OF this(1)] once_distinct [OF this(2)]
  moreover have "a \<in> set (concat (map joiner_arc (spawned s)))" if "JoinerWs a \<in> set (spawned s)" for a
    using that by force
  ultimately show ?thesis by fastforce
qed

section \<open>The rest of the server, as one session sees it\<close>

definition elsewhere :: "nat \<Rightarrow> string \<Rightarrow> app_state \<Rightarrow> app_state \<Rightarrow> bool" where
  "elsewhere a sid s0 s \<longleftrightarrow> a < next_arc s \<and> keys_ok (relay_pending s) \<and> arcs s a = arcs s0 a \<and>
     mono_now s0 \<le> mono_now s \<and> map_of (relay_pending s) sid \<in> {map_of (relay_pending s0) sid, None}"

interpretation elsewhere: relay_shrink "elsewhere a sid s0" for a sid s0
proof
  fix s s' :: app_state and a sid s0
  assume "elsewhere a sid s0 s" "relay_core s' = relay_core s"
  then show "elsewhere a sid s0 s'" by (simp add: elsewhere_def relay_core_def)
next
  fix s :: app_state and a sid s0 P
  assume s: "elsewhere a sid s0 s"
  then have k: "keys_ok (relay_pending s)" by (simp add: elsewhere_def)
  have "map_of (filter P (relay_pending s)) sid \<in> {map_of (relay_pending s) sid, None}"
    using k by (cases "map_of (filter P (relay_pending s)) sid")
      (auto simp: keys_ok_def dest!: map_of_SomeD intro: map_of_is_SomeI)
  then show "elsewhere a sid s0 (s\<lparr>relay_pending := filter P (relay_pending s)\<rparr>)"
    using s keys_ok_filter [OF k] by (auto simp: elsewhere_def)
qed

lemma elsewhere_upgrade:
  assumes "sid' \<noteq> sid"
  shows "safe (elsewhere a sid s0) (relay_ws E sid' token)"
proof -
  have new: "safe (elsewhere a sid s0) (new_arc h)" for h
    unfolding new_arc_def by (rule safe_atomic) (auto simp: elsewhere_def)
  have put: "safe (elsewhere a sid s0) (put_pending sid' p)" for p
    unfolding put_pending_def using assms
    by (intro safe_atomic) (auto simp: elsewhere_def hm.ok_put map_of_update)
  have take: "safe (elsewhere a sid s0) (atomic (\<lambda>s. map_prod Inr id (take_pending hash sid' s)))" for hash
    using assms by (intro safe_atomic)
      (auto simp: elsewhere_def take_pending_def hm.ok_del map_of_delete split: option.split)
  have up: "safe (elsewhere a sid s0) (on_upgrade t)" for t
    unfolding on_upgrade_def by (rule safe_atomic) (simp add: elsewhere_def)
  show ?thesis unfolding relay_ws_def Let_def
    by (intro safe_rules new put take up elsewhere.frame_sections)
qed

definition others_of :: "'v ext \<Rightarrow> string \<Rightarrow> string \<Rightarrow> response handler \<Rightarrow> bool" where
  "others_of E m sid p \<longleftrightarrow> (served E m p \<or> background E m p) \<and> p \<notin> range (relay_ws E sid)"

lemma others_elsewhere: "others_of E m sid p \<Longrightarrow> safe (elsewhere a sid s0) p"
proof -
  assume p: "others_of E m sid p"
  then have "served E m p \<or> background E m p" by (simp add: others_of_def)
  then show ?thesis
  proof (cases rule: served_cases)
    case (request e)
    show ?thesis
    proof (cases "e = Relay_Socket")
      case True
      then obtain sid' token where "p = relay_ws E sid' token" using request by auto
      moreover from this have "sid' \<noteq> sid" using p by (auto simp: others_of_def)
      ultimately show ?thesis by (simp add: elsewhere_upgrade)
    next
      case False
      with request show ?thesis by (auto intro: elsewhere.frame_handles)
    qed
  next
    case task
    then show ?thesis by (rule elsewhere.shrink_background)
  qed
qed


section \<open>Two upgrades of one creator\<close>

definition upgrade_found :: "'v ext \<Rightarrow> string \<Rightarrow> string \<Rightarrow> initialized_relay option \<Rightarrow> response handler" where
  "upgrade_found E sid tok maybe_init =
     (case maybe_init of
        Some init \<Rightarrow>
          if hash_token E tok \<noteq> ir_token_a_hash init then pure (text_response 401 ''invalid token'')
          else
            pbind (new_arc (ir_token_b_hash init)) (\<lambda>p.
            pbind (drop_init sid) (\<lambda>_.
            pbind (put_pending sid p) (\<lambda>_.
            pbind (reads config) (\<lambda>c.
            on_upgrade (CreatorWs (pr_arc p) sid (session_timeout_seconds (cfg_relay c)))))))
      | None \<Rightarrow>
          pbind (atomic (\<lambda>s. map_prod Inr id (take_pending (hash_token E tok) sid s))) (\<lambda>maybe_pending.
          case maybe_pending of
            Some p \<Rightarrow> on_upgrade (JoinerWs (pr_arc p))
          | None \<Rightarrow> pure (text_response 404 ''session not found'')))"

lemma relay_ws_found:
  "relay_ws E sid (Some tok) = pbind (reads (\<lambda>s. map_of (relay_init s) sid)) (upgrade_found E sid tok)"
  by (simp add: relay_ws_def upgrade_found_def [abs_def] Let_def)

lemma run_upgrade_found:
  "hash_token E tok = ir_token_a_hash r \<Longrightarrow>
     run (upgrade_found E sid tok (Some r)) s = (Inr switching_protocols, creator_connected sid r s)"
  by (simp add: upgrade_found_def run_pbind run_reads run_relay_sections creator_connected_def)

text \<open>C28. Two overlapping upgrades with the creator's token are both accepted: both read the session before either
  removes it, and the second replaces the entry of the first. When the first then gives up waiting it removes
  the entry by the session's name, that is the second's, and the joiner is refused.\<close>

theorem creator_race:
  assumes "map_of (relay_init s) sid = Some r" "hash_token E tok = ir_token_a_hash r"
  shows "\<exists>t. (sched env req)\<^sup>*\<^sup>* (s, [relay_ws E sid (Some tok), relay_ws E sid (Some tok)])
      (t, [pure switching_protocols, pure switching_protocols]) \<and>
    (\<exists>timeout. spawned t = spawned s @ [CreatorWs (next_arc s) sid timeout, CreatorWs (Suc (next_arc s)) sid timeout]) \<and>
    map_option pr_arc (map_of (relay_pending t) sid) = Some (Suc (next_arc s)) \<and>
    (\<forall>tok_b. fst (run (relay_ws E sid (Some tok_b)) (srv (creator_timeout sid (ws_start (next_arc s) t)))) =
       Inr (text_response 404 ''session not found''))"
proof -
  let ?s1 = "creator_connected sid r s" let ?t = "creator_connected sid r ?s1"
  let ?R = "relay_ws E sid (Some tok)" let ?K = "upgrade_found E sid tok (Some r)"
  have full: "run ?R s = (Inr switching_protocols, ?s1)" using assms by (simp add: run_relay_ws)
  have late: "run ?K ?s1 = (Inr switching_protocols, ?t)" using assms(2) by (rule run_upgrade_found)
  have read: "run (reads (\<lambda>s. map_of (relay_init s) sid)) s = (Inr (Some r), s)" using assms(1) by (simp add: run_reads)
  have "(sched env req)\<^sup>*\<^sup>* (s, [?K, ?R]) (?t, [pure switching_protocols, pure switching_protocols])"
    using sched_run [of 1 "[?K, ?R]", OF _ _ full, of env req]
      sched_run [of 0 "[?K, pure switching_protocols]", OF _ _ late, of env req] by simp
  then have "(sched env req)\<^sup>*\<^sup>* (s, [?R, ?R]) (?t, [pure switching_protocols, pure switching_protocols])"
    using sched_stage [of 0 "[?R, ?R]", OF _ read, where k = "upgrade_found E sid tok" and env = env and req = req]
    by (simp add: relay_ws_found)
  moreover have "\<exists>timeout. spawned ?t = spawned s @ [CreatorWs (next_arc s) sid timeout, CreatorWs (Suc (next_arc s)) sid timeout]"
    by (simp add: creator_connected_def)
  moreover have "map_option pr_arc (map_of (relay_pending ?t) sid) = Some (Suc (next_arc s))"
    by (simp add: creator_connected_def map_of_update)
  moreover have "fst (run (relay_ws E sid (Some tok_b)) (srv (creator_timeout sid (ws_start (next_arc s) ?t)))) =
       Inr (text_response 404 ''session not found'')" for tok_b
    by (simp add: run_relay_ws creator_timeout_def drop_pending_def ws_start_def map_of_delete)
      (simp add: creator_connected_def map_of_delete)
  ultimately show ?thesis by blast
qed

section \<open>Witnesses\<close>

theorem creator_race_witness:
  "\<exists>t. (sched (\<lambda>_ _. False) (\<lambda>_. False))\<^sup>*\<^sup>*
      (sample_waiting, [relay_ws sample_ext ''S'' (Some ''a''), relay_ws sample_ext ''S'' (Some ''a'')])
      (t, [pure switching_protocols, pure switching_protocols]) \<and>
    map_option pr_arc (map_of (relay_pending t) ''S'') = Some (Suc (next_arc sample_waiting))"
proof -
  have "map_of (relay_init sample_waiting) ''S'' = Some sample_init" "hash_token sample_ext ''a'' = ir_token_a_hash sample_init"
    by (simp_all add: sample_waiting_simps)
  from creator_race [OF this, of "\<lambda>_ _. False" "\<lambda>_. False"] show ?thesis by blast
qed

lemma relay_served: "e \<in> {Relay_Create, Relay_Join, Relay_Socket} \<Longrightarrow> handles E e p \<Longrightarrow> served E m p"
  unfolding served_def by (auto simp: build_router_def relay_routes_def)

text \<open>A session of the sample server, connected from both ends.\<close>

theorem two_ends_witness:
  "\<exists>s ps. server_reach sample_ext sample_config sample_db ''discovery'' (s, ps) \<and>
     spawned s = [CreatorWs 0 [] 30, JoinerWs 0] \<and> distinct (concat (map joiner_arc (spawned s)))"
proof -
  let ?ta = "generate_token sample_ext [1]" and ?tb = "generate_token sample_ext [2]"
  let ?s1 = "opened sample_ext [] [1] [2] 1 sample_home"
  let ?r = "\<lparr>ir_token_a_hash = hash_token sample_ext ?ta, ir_token_b = ?tb, ir_token_b_hash = hash_token sample_ext ?tb,
      ir_creator_id = 1, ir_created_at = mono_now sample_home\<rparr>"
  let ?s2 = "creator_connected [] ?r ?s1"
  let ?s3 = "?s2\<lparr>relay_pending := AList.delete [] (relay_pending ?s2), spawned := spawned ?s2 @ [JoinerWs 0]\<rparr>"
  have arc: "next_arc (opened sample_ext [] [1] [2] u sample_home) = 0" "spawned (opened sample_ext [] [1] [2] u sample_home) = []"
    "config (opened sample_ext [] [1] [2] u sample_home) = sample_config" for u
    by (simp_all add: opened_def sample_session_ids)
  have init: "map_of (relay_init ?s1) [] = Some ?r" by (simp add: opened_def map_of_update sample_uuid)
  have 1: "\<exists>a. run (relay_create sample_ext [] [1] [2] (bearer sample_token)) sample_home = (Inr a, ?s1)"
    using run_create_ok [of sample_home, OF _ _ _ sample_auth]
    by (simp add: sample_session_ids sample_relay_config sample_uuid user_ids_def sample_db_simps sample_user_def)
  have 2: "run (relay_ws sample_ext [] (Some ?ta)) ?s1 = (Inr switching_protocols, ?s2)"
    using init by (simp add: run_relay_ws)
  have 3: "run (relay_ws sample_ext [] (Some ?tb)) ?s2 = (Inr switching_protocols, ?s3)"
    by (simp add: run_relay_ws) (simp add: creator_connected_def map_of_delete map_of_update arc del: One_nat_def)
  have start: "server_reach sample_ext sample_config sample_db ''discovery'' (sample_home, [])"
    unfolding sample_home_new by (rule server_start)
  have ws: "served sample_ext ''discovery'' (relay_ws sample_ext [] tok)" for tok
    by (rule relay_served [OF _ h_relay_ws]) simp
  have new: "served sample_ext ''discovery'' (relay_create sample_ext [] [1] [2] (bearer sample_token))"
    by (rule relay_served [OF _ h_relay_create]) simp
  from 1 obtain ps where "server_reach sample_ext sample_config sample_db ''discovery'' (?s1, ps)"
    using server_request [OF start new] by blast
  from server_request [OF server_request [OF this ws 2] ws 3]
  obtain ps where reach: "server_reach sample_ext sample_config sample_db ''discovery'' (?s3, ps)" by blast
  moreover have "spawned ?s3 = [CreatorWs 0 [] 30, JoinerWs 0]"
    by (simp add: creator_connected_def arc sample_relay_config del: One_nat_def)
  ultimately show ?thesis using two_ends [OF reach] by metis
qed

definition sample_open :: relay_conf where
  "sample_open = w1\<lparr>srv := (srv w1)\<lparr>next_arc := 1\<rparr>\<rparr>"


end
