(* ===== verification/No_Panic.thy ===== *)
theory No_Panic
  imports Server Process_Rules
begin

text \<open>
  Panics. A panic is a result of a process (\<open>Inl Panic\<close>); \<open>calm\<close> says that a process never has it, given the
  configuration and a bound on the wall clock. The rules follow the handlers' own structure, so each handler is a
  line. The two panics the code can reach, a lifetime of tokens and a grace period out of range, are the hypotheses.
\<close>

section \<open>Panics\<close>

abbreviation calm :: "('s \<Rightarrow> bool) \<Rightarrow> ('s, exn + 'a) proc \<Rightarrow> bool" where
  "calm I \<equiv> yields I (\<lambda>r. r \<noteq> Inl Panic)"

named_theorems calm_rules

lemma calm_pbind [calm_rules]: "calm I p \<Longrightarrow> (\<And>a. calm I (f a)) \<Longrightarrow> calm I (pbind p f)"
  by (erule yields_pbind) auto

text \<open>What is read satisfies the invariant.\<close>

lemma calm_reads_bind: "(\<And>s. I s \<Longrightarrow> calm I (k (f s))) \<Longrightarrow> calm I (pbind (reads f) k)"
  by (rule yields_pbind [where P = "\<lambda>r. \<exists>s. I s \<and> r = Inr (f s)"])
    (auto simp: reads_def intro!: yields_atomic)

lemma calm_pure [calm_rules]: "calm I (pure a)"
  by (simp add: pure_def)

lemma calm_fail [calm_rules]: "calm I (fail_with e)" "calm I (require b e)"
  by (simp_all add: fail_with_def throw_def require_def ensure_def pure_def)

lemma calm_reads [calm_rules]: "calm I (reads f)"
  unfolding reads_def by (rule yields_atomic) simp

lemma calm_if [calm_rules]: "(b \<Longrightarrow> calm I p) \<Longrightarrow> (\<not> b \<Longrightarrow> calm I q) \<Longrightarrow> calm I (if b then p else q)"
  by simp

lemma calm_case_option [calm_rules]:
  "(x = None \<Longrightarrow> calm I p) \<Longrightarrow> (\<And>a. x = Some a \<Longrightarrow> calm I (q a)) \<Longrightarrow> calm I (case x of None \<Rightarrow> p | Some a \<Rightarrow> q a)"
  by (cases x) auto

lemma calm_case_sum [calm_rules]:
  "(\<And>a. calm I (p a)) \<Longrightarrow> (\<And>b. calm I (q b)) \<Longrightarrow> calm I (case x of Inl a \<Rightarrow> p a | Inr b \<Rightarrow> q b)"
  by (cases x) auto

lemma calm_case_prod [calm_rules]: "(\<And>a b. calm I (p a b)) \<Longrightarrow> calm I (case x of (a, b) \<Rightarrow> p a b)"
  by (cases x) auto

lemma calm_unless [calm_rules]: "calm I k \<Longrightarrow> calm I (unless_response early k)"
  unfolding unless_response_def by (intro calm_rules)

lemma calm_unwrap_or [calm_rules]: "calm I p \<Longrightarrow> calm I (unwrap_or a p)"
  unfolding unwrap_or_def by (rule yields_pmap, erule yields_mono) (auto split: sum.splits exn.splits)

lemma calm_map_db_err [calm_rules]: "calm I p \<Longrightarrow> calm I (map_db_err h p)"
  unfolding map_db_err_def
  by (rule yields_pmap, erule yields_mono) (auto split: sum.splits exn.splits app_error.splits)

text \<open>The configuration does not change; the wall clock stays below \<open>T\<close>.\<close>

definition in_time :: "config \<Rightarrow> nat \<Rightarrow> app_state \<Rightarrow> bool" where
  "in_time c T s \<longleftrightarrow> config s = c \<and> utc_now s \<le> T"

lemma calm_section:
  "(\<And>s. config (snd (m s)) = config s \<and> utc_now (snd (m s)) = utc_now s \<and> fst (m s) \<noteq> Inl Panic) \<Longrightarrow>
     calm (in_time c T) (atomic m)"
  by (rule yields_atomic) (simp add: in_time_def)

lemma calm_sql [calm_rules]: "calm (in_time c T) (sql f)"
  unfolding sql_def by (rule calm_section) (auto simp: map_sum_def split: prod.split sum.split)

lemma calm_sections [calm_rules]:
  "calm (in_time c T) (limit_register ip)" "calm (in_time c T) (limit_lookup ip)" "calm (in_time c T) (init_session sid r)"
  "calm (in_time c T) (new_arc h)" "calm (in_time c T) (drop_init sid)" "calm (in_time c T) (put_pending sid p)"
  "calm (in_time c T) (on_upgrade t)" "calm (in_time c T) (retain_init now grace)" "calm (in_time c T) (retain_pending now grace)"
  "calm (in_time c T) (broadcast f)" "calm (in_time c T) (connect u)" "calm (in_time c T) (disconnect u)"
  "calm (in_time c T) (atomic (\<lambda>s. map_prod Inr id (take_pending hash sid s)))"
  unfolding limit_register_def limit_lookup_def relay_sections broadcast_def connect_def disconnect_def take_pending_def
  by (rule calm_section; simp split: prod.split option.split)+

lemma calm_auth [calm_rules]:
  "calm (in_time c T) (resolve_token E hs)" "calm (in_time c T) (resolve_member E hs)" "calm (in_time c T) get_member_count"
  unfolding resolve_token_def resolve_member_def get_member_count_def by (intro calm_rules)+

definition days_fit :: "'v ext \<Rightarrow> config \<Rightarrow> nat \<Rightarrow> bool" where
  "days_fit E c T \<longleftrightarrow> (0 < ttl_days (cfg_tokens c) \<longrightarrow>
     (\<forall>t \<le> T. add_days E t (unat (ttl_days (cfg_tokens c))) \<noteq> None))"

lemma calm_issue:
  assumes "days_fit E c T" "in_time c T s"
  shows "calm (in_time c T) (issue_token E (config s) rnd uid)"
proof -
  have c: "config s = c" using assms(2) by (simp add: in_time_def)
  have "calm (in_time c T) (expires_at E c)"
    using assms(1) unfolding expires_at_def
    by (auto intro!: calm_rules yields_atomic simp: in_time_def days_fit_def split: option.split)
  then show ?thesis unfolding issue_token_def Let_def c by (intro calm_rules)
qed

lemma calm_write: "days_fit E c T \<Longrightarrow> in_time c T s \<Longrightarrow> calm (in_time c T) (register_write E (config s) rnd rq)"
  unfolding register_write_def by (intro calm_rules calm_issue)

lemma calm_discovery:
  assumes "days_fit E c T"
  shows "calm (in_time c T) (info E)" "calm (in_time c T) (register E rnd peer rq)"
    "calm (in_time c T) (lookup E peer name)" "calm (in_time c T) (search E q)"
    "calm (in_time c T) (update_presence E hs rq')" "calm (in_time c T) (heartbeat E hs)"
    "calm (in_time c T) (unregister E hs)" "calm (in_time c T) (token_refresh E rnd hs)"
    "calm (in_time c T) (invite_create E r hs)"
  unfolding info_def register_def check_version_def check_invite_def check_username_def check_pubkey_def check_ip_def
    check_email_def check_max_users_def lookup_def search_def update_presence_def heartbeat_def unregister_def
    token_refresh_def invite_create_def Let_def
  by (intro calm_reads_bind calm_rules calm_write [OF assms] calm_issue [OF assms]; assumption)+

lemma calm_group:
  "calm (in_time c T) group_info" "calm (in_time c T) (group_join E fresh secret nonce rnd join_rq)"
  "calm (in_time c T) (group_leave E hs)" "calm (in_time c T) (group_members E hs)" "calm (in_time c T) (group_history E hs)"
  "calm (in_time c T) (group_ws E token)" "calm (in_time c T) (group_text E u r t)" "calm (in_time c T) (history_frames E)"
  unfolding group_info_def group_join_def check_members_def member_key_def get_or_create_group_key_def
    encrypt_group_key_def Let_def group_leave_def group_members_def group_history_def group_ws_def group_text_def
    post_message_def history_frames_def
  by (intro calm_rules)+

lemma calm_relay:
  "calm (in_time c T) (relay_create E uuid rnd_a rnd_b hs)" "calm (in_time c T) (relay_join E hs sid)"
  "calm (in_time c T) (relay_ws E sid token)"
  unfolding relay_create_def check_sessions_def open_session_def relay_join_def relay_ws_def Let_def
  by (intro calm_rules)+

lemma calm_cleanup:
  assumes "grace_of c \<noteq> None"
  shows "calm (in_time c T) cleanup_pass"
  unfolding cleanup_pass_def
proof (rule calm_reads_bind)
  fix s assume "in_time c T s"
  then obtain g where "grace_of (config s) = Some g" using assms by (auto simp: in_time_def)
  then show "calm (in_time c T) (case grace_of (config s) of None \<Rightarrow> throw Panic
      | Some grace \<Rightarrow> pbind (reads mono_now) (\<lambda>now. pbind (retain_init now grace) (\<lambda>_. retain_pending now grace)))"
    by simp (intro calm_rules)
qed

lemma calm_detached: "calm I p \<Longrightarrow> calm I (detached p)"
  unfolding detached_def by (rule yields_pmap, erule yields_mono) (auto simp: map_sum_def split: sum.splits)



section \<open>A lifetime out of range\<close>

text \<open>With a lifetime of tokens that leaves the range of dates, a registration that has passed its checks panics
  after it has written the account: the user is stored and has no token.\<close>

theorem ttl_overflow:
  assumes "faults s = []" "db_ok (pool s)"
    and "rq_username rq \<notin> u_name ` set (users (pool s))" "to_lowercase E (rq_username rq) \<notin> u_lc ` set (users (pool s))"
    and "0 < ttl_days (cfg_tokens c)" "add_days E (utc_now s) (unat (ttl_days (cfg_tokens c))) = None"
  shows "\<exists>s'. run (register_write E c rnd rq) s = (Inl Panic, s') \<and>
    users (pool s') = users (pool s) @ [account_user E (sql_now E s) rq (pool s)] \<and> tokens (pool s') = tokens (pool s)"
proof -
  let ?u = "Suc (user_seq (pool s))"
  let ?s1 = "s\<lparr>pool := (pool s)\<lparr>users := users (pool s) @ [account_user E (sql_now E s) rq (pool s)], user_seq := ?u\<rparr>\<rparr>"
  let ?p = "\<lparr>p_user = ?u, p_ip = rq_ip rq, p_port = unat (rq_port rq), p_seen = sql_now E s\<rparr>"
  let ?s2 = "?s1\<lparr>pool := (pool ?s1)\<lparr>presence := insort_key p_user ?p (presence (pool s))\<rparr>\<rparr>"
  have "run (sql (\<lambda>s. insert_presence ?u (rq_ip rq) (unat (rq_port rq)) (sql_now E s))) ?s1 = (Inr (), ?s2)"
    using assms(1) fresh_user_id [OF assms(2)]
    by (simp add: run_sql_ok insert_presence_def user_ids_def account_user_def sql_now_def)
  moreover have "run (issue_token E c rnd ?u) ?s2 = (Inl Panic, ?s2)"
    using assms(5,6) by (simp add: issue_token_def Let_def run_pbind run_expires_at expiry_of_def)
  ultimately have "run (register_write E c rnd rq) s = (Inl Panic, ?s2)"
    unfolding register_write_def run_pbind [of "sql _"] run_insert_user [OF assms(1,3,4)] prod.case sum.case
    by (simp add: run_pbind [of "issue_token _ _ _ _"])
  then show ?thesis by simp
qed

theorem ttl_overflow_witness:
  "\<exists>s'. run (register_write (sample_ext\<lparr>add_days := \<lambda>t n. None\<rparr>) (sample_config\<lparr>cfg_tokens := \<lparr>ttl_days = 1, max_per_user = 3\<rparr>\<rparr>)
      [] (sample_request ''vasya'')) sample_server = (Inl Panic, s') \<and> length (users (pool s')) = 1 \<and> tokens (pool s') = []"
  using ttl_overflow [of sample_server "sample_request ''vasya''" "sample_ext\<lparr>add_days := \<lambda>t n. None\<rparr>"
      "sample_config\<lparr>cfg_tokens := \<lparr>ttl_days = 1, max_per_user = 3\<rparr>\<rparr>" "[]"]
  by (simp add: sample_server_simps db_ok_empty empty_db_simps) fastforce

end
