(* ===== verification/Error_Paths.thy ===== *)
theory Error_Paths
  imports Server Process_Rules
begin

text \<open>
  What a failed request leaves behind. \<open>clean view p\<close>: as long as \<open>p\<close> may still fail its sections leave the part
  \<open>view\<close> of the state alone; after the first section that changes it, \<open>p\<close> is \<open>sure\<close> to succeed. Every handler
  that writes with its last statement is clean. The other three write more than once, outside a
  transaction: \<open>register_half_done\<close> (in \<open>Accounts\<close>) and \<open>refresh_half_done\<close> are what an error then leaves.
\<close>

section \<open>Processes whose errors are clean\<close>

abbreviation sure :: "('s, 'e + 'a) proc \<Rightarrow> bool" where
  "sure \<equiv> yields (\<lambda>_. True) (\<lambda>r. \<exists>a. r = Inr a)"

primrec clean :: "('s \<Rightarrow> 'd) \<Rightarrow> ('s, 'e + 'a) proc \<Rightarrow> bool" where
  "clean view (Ret r) = True"
| "clean view (Act g) = (\<forall>s.
     view (fst (g s)) = view s \<and> snd (map_prod id (clean view) (g s)) \<or> sure (snd (g s)))"

lemma clean_Act: "clean view (Act g) \<longleftrightarrow>
    (\<forall>s. view (fst (g s)) = view s \<and> clean view (snd (g s)) \<or> sure (snd (g s)))"
  by simp

declare clean.simps(2) [simp del]

lemma run_sure: "sure p \<Longrightarrow> \<exists>a. fst (run p s) = Inr a"
proof (induction p arbitrary: s)
  case (Act g)
  then show ?case by (simp add: yields_Act run_Act)
qed simp

lemma clean_run: "clean view p \<Longrightarrow> fst (run p s) = Inl e \<Longrightarrow> view (snd (run p s)) = view s"
proof (induction p arbitrary: s)
  case (Act g)
  have "view (fst (g s)) = view s \<and> clean view (snd (g s))"
    using Act.prems run_sure [of "snd (g s)" "fst (g s)"] by (auto simp: clean_Act run_Act)
  then show ?case using Act.IH [of s "fst (g s)"] Act.prems(2) by (simp add: run_Act)
qed simp

lemma sure_clean: "sure p \<Longrightarrow> clean view p"
  by (cases p) (auto simp: clean_Act yields_Act)

lemma quiet_clean: "(\<And>d. safe (\<lambda>s. view s = d) p) \<Longrightarrow> clean view p"
proof (induction p)
  case (Act g)
  have "view (fst (g s)) = view s \<and> clean view (snd (g s))" for s
    using Act.prems [of "view s"] Act.IH [of s] Act.prems by (auto simp: safe_Act)
  then show ?case by (auto simp: clean_Act)
qed simp

named_theorems clean_rules

lemma clean_read [clean_rules]:
  assumes "\<And>d. safe (\<lambda>s. view s = d) p" "\<And>a. clean view (f a)"
  shows "clean view (pbind p f)"
  using assms(1)
proof (induction p)
  case (Ret r)
  then show ?case using assms(2) by (cases r) simp_all
next
  case (Act g)
  have "view (fst (g s)) = view s \<and> clean view (pbind (snd (g s)) f)" for s
    using Act.prems [of "view s"] Act.IH [of s] Act.prems by (auto simp: safe_Act)
  then show ?case by (simp add: clean_Act)
qed

lemma clean_write:
  assumes "clean view p" "\<And>a. sure (f a)"
  shows "clean view (pbind p f)"
  using assms(1)
proof (induction p)
  case (Ret r)
  then show ?case using assms(2) sure_clean by (cases r) auto
next
  case (Act g)
  have "sure (pbind q f)" if "sure q" for q by (rule yields_pbind [OF that]) (auto intro: assms(2))
  with Act show ?case by (auto simp: clean_Act)
qed

lemma clean_end [clean_rules]: "clean view (pure a)" "clean view (fail_with e)" "clean view (throw x)" "clean view (reads f)"
  by (simp_all add: pure_def fail_with_def throw_def) (rule quiet_clean, intro safe_rules)

lemma clean_option [clean_rules]:
  "clean view p \<Longrightarrow> (\<And>a. clean view (q a)) \<Longrightarrow> clean view (case x of None \<Rightarrow> p | Some a \<Rightarrow> q a)"
  by (cases x) auto

lemma clean_sum [clean_rules]:
  "(\<And>a. clean view (p a)) \<Longrightarrow> (\<And>b. clean view (q b)) \<Longrightarrow> clean view (case x of Inl a \<Rightarrow> p a | Inr b \<Rightarrow> q b)"
  by (cases x) auto

lemma clean_prod [clean_rules]: "(\<And>a b. clean view (p a b)) \<Longrightarrow> clean view (case x of (a, b) \<Rightarrow> p a b)"
  by (cases x) auto

lemma clean_if [clean_rules]: "clean view p \<Longrightarrow> clean view q \<Longrightarrow> clean view (if b then p else q)"
  by simp

lemma clean_unless [clean_rules]: "clean view k \<Longrightarrow> clean view (unless_response early k)"
  unfolding unless_response_def by (intro clean_rules)

lemma clean_atomic: "(\<And>s. view (snd (m s)) = view s \<or> (\<exists>a. fst (m s) = Inr a)) \<Longrightarrow> clean view (atomic m)"
  unfolding atomic_def clean_Act by (auto split: prod.splits) (metis fst_conv snd_conv)+

section \<open>Statements\<close>

text \<open>A statement that fails has no effect, on the database or on anything else.\<close>

definition all_or_nothing :: "'a stmt \<Rightarrow> bool" where
  "all_or_nothing f \<longleftrightarrow> (\<forall>d e. fst (f d) = Inl e \<longrightarrow> snd (f d) = d)"

lemma clean_sql: "(\<And>s. all_or_nothing (f s)) \<Longrightarrow> clean pool (sql f)"
  unfolding sql_def
  by (rule clean_atomic) (auto simp: all_or_nothing_def case_prod_beta map_sum_def split: sum.splits)

lemma writes_all_or_nothing:
  "all_or_nothing (insert_session sid u now)" "all_or_nothing (set_joiner u sid)" "all_or_nothing (insert_invite code u now)"
  "all_or_nothing (upsert_presence u ip port now)" "all_or_nothing (touch_presence u now)" "all_or_nothing (delete_user u)"
  "all_or_nothing (delete_member name)"
  by (auto simp: all_or_nothing_def insert_session_def set_joiner_def insert_invite_def upsert_presence_def insert_presence_def
      touch_presence_def delete_user_def delete_member_def split: if_splits)

lemma clean_statement:
  assumes "\<And>a. sure (k a)"
  shows "clean pool (pbind (sql (\<lambda>s. insert_session sid u (now s))) k)" "clean pool (pbind (sql (\<lambda>s. set_joiner u sid)) k)"
    "clean pool (pbind (sql (\<lambda>s. insert_invite code u (now s))) k)"
    "clean pool (pbind (sql (\<lambda>s. upsert_presence u ip port (now s))) k)"
    "clean pool (pbind (sql (\<lambda>s. touch_presence u (now s))) k)" "clean pool (pbind (sql (\<lambda>s. delete_user u)) k)"
    "clean pool (pbind (sql (\<lambda>s. delete_member name)) k)"
  using assms by (auto intro!: clean_write clean_sql writes_all_or_nothing)

text \<open>What does not write.\<close>

lemma quiet_sql: "(\<And>s d. snd (f s d) = d) \<Longrightarrow> safe (\<lambda>s. pool s = d0) (sql f)"
  by (rule safe_sql_db) simp

lemma quiet_atomic: "(\<And>s. pool (snd (m s)) = pool s) \<Longrightarrow> safe (\<lambda>s. pool s = d) (atomic m)"
  by (rule safe_atomic) simp

named_theorems quiet_rules

lemmas read_defs = select_token_def select_member_def count_users_def count_online_def select_lookup_def
  select_online_by_ip_def search_users_def select_config_def count_members_def list_members_def select_history_def

lemma quiet_reads [quiet_rules]:
  "safe (\<lambda>s. pool s = d) (sql (\<lambda>s. select_token (h s) (n s)))" "safe (\<lambda>s. pool s = d) (sql (\<lambda>s. select_member (h s)))"
  "safe (\<lambda>s. pool s = d) (sql (\<lambda>s. count_users))" "safe (\<lambda>s. pool s = d) (sql (\<lambda>s. count_online (c s)))"
  "safe (\<lambda>s. pool s = d) (sql (\<lambda>s. select_lookup (l s)))" "safe (\<lambda>s. pool s = d) (sql (\<lambda>s. select_online_by_ip (c' s) (ip s)))"
  "safe (\<lambda>s. pool s = d) (sql (\<lambda>s. search_users (l' s)))" "safe (\<lambda>s. pool s = d) (sql (\<lambda>s. count_members))"
  "safe (\<lambda>s. pool s = d) (sql (\<lambda>s. list_members))" "safe (\<lambda>s. pool s = d) (sql (\<lambda>s. select_history (k s)))"
  by (rule quiet_sql; simp add: read_defs query_def split: option.split)+

lemma quiet_sections [quiet_rules]:
  "safe (\<lambda>s. pool s = d) (limit_lookup ip)" "safe (\<lambda>s. pool s = d) (init_session sid r)" "safe (\<lambda>s. pool s = d) (new_arc h)"
  "safe (\<lambda>s. pool s = d) (drop_init sid)" "safe (\<lambda>s. pool s = d) (put_pending sid p)" "safe (\<lambda>s. pool s = d) (on_upgrade t)"
  "safe (\<lambda>s. pool s = d) (broadcast f)" "safe (\<lambda>s. pool s = d) (atomic (\<lambda>s. map_prod Inr id (take_pending hash sid s)))"
  unfolding limit_lookup_def relay_sections broadcast_def take_pending_def
  by (rule quiet_atomic; simp split: prod.split option.split)+

lemma quiet_auth [quiet_rules]:
  "safe (\<lambda>s. pool s = d) (resolve_token E hs)" "safe (\<lambda>s. pool s = d) (resolve_member E hs)" "safe (\<lambda>s. pool s = d) get_member_count"
  unfolding resolve_token_def resolve_member_def get_member_count_def by (intro safe_rules quiet_rules)+

lemma clean_on_upgrade: "clean pool (on_upgrade t)"
  by (rule quiet_clean) (rule quiet_rules)

lemma sure_sections:
  "sure (pure a)" "(\<And>x. sure (k x)) \<Longrightarrow> sure (pbind (init_session sid r) k)"
  "(\<And>x. sure (k' x)) \<Longrightarrow> sure (pbind (broadcast f) k')"
proof -
  have "sure (init_session sid r)" "sure (broadcast f)"
    unfolding init_session_def broadcast_def by (rule yields_atomic; simp)+
  then show "(\<And>x. sure (k x)) \<Longrightarrow> sure (pbind (init_session sid r) k)" "(\<And>x. sure (k' x)) \<Longrightarrow> sure (pbind (broadcast f) k')"
    by (auto intro: yields_pbind)
qed (simp add: pure_def)

lemma clean_handlers:
  "clean pool (info E)" "clean pool (lookup E peer name)" "clean pool (search E q)" "clean pool (update_presence E hs rq)"
  "clean pool (heartbeat E hs)" "clean pool (unregister E hs)" "clean pool (invite_create E i hs)"
  "clean pool (relay_create E uuid ra rb hs)" "clean pool (relay_join E hs sid)" "clean pool (relay_ws E sid token)"
  "clean pool group_info" "clean pool (group_leave E hs)" "clean pool (group_members E hs)" "clean pool (group_history E hs)"
  "clean pool (group_ws E token)"
  unfolding info_def lookup_def search_def update_presence_def heartbeat_def unregister_def invite_create_def relay_create_def
    check_sessions_def open_session_def relay_join_def relay_ws_def group_info_def group_leave_def group_members_def
    group_history_def group_ws_def check_ip_def Let_def
  by (intro clean_statement sure_sections clean_rules clean_on_upgrade; (intro quiet_rules safe_rules)?)+

text \<open>C16. An error has no effect on the database: whatever the engine and the request do, when one of the fifteen
  endpoints other than \<open>/register\<close>, \<open>/token/refresh\<close> and \<open>/group/join\<close> fails, at whichever statement, the tables
  are as they were.\<close>

theorem error_is_clean:
  assumes "handles E e p" "e \<notin> {Register, Token_Refresh, Group_Join}" "fst (run p s) = Inl err"
  shows "pool (snd (run p s)) = pool s"
proof -
  have "clean pool p" using assms(1,2) by cases (simp_all add: clean_handlers)
  then show ?thesis using assms(3) by (rule clean_run)
qed

section \<open>A failure of the engine in the middle of a refresh\<close>

lemma run_sql_next:
  "faults s = False # fs \<Longrightarrow> run (sql f) s =
     (map_sum (Fail \<circ> Db) id (fst (f s (pool s))), s\<lparr>pool := snd (f s (pool s)), faults := fs\<rparr>)"
  by (simp add: sql_def run_simps case_prod_beta)

lemma run_sql_refused: "faults s = True # fs \<Longrightarrow> run (sql f) s = (Inl (Fail (Db Engine)), s\<lparr>faults := fs\<rparr>)"
  by (simp add: sql_def run_simps)

text \<open>C31. The eviction and the insertion of a token refresh are not one transaction: when the engine fails on the
  insertion, the answer is an error and the account has one token less. An account that had one token
  (\<open>max_per_user\<close> is 1) is locked out: no bearer authenticates it any more.\<close>

theorem refresh_half_done:
  assumes "faults s = [False, False, False, True]" "db_ok (pool s)" "t \<in> set (tokens (pool s))"
    and "extract_bearer hs = Inr raw" "t_hash t = hash_token E raw" "token_live (sql_now E s) t"
    and "expiry_of E (config s) (utc_now s) = Inr exp"
    and "unat (max_per_user (cfg_tokens (config s))) \<le> length (tokens_of (t_user t) (pool s))"
  shows "\<exists>s'. run (token_refresh E rnd hs) s = (Inl (Fail (Db Engine)), s') \<and>
    length (tokens_of (t_user t) (pool s')) = length (tokens_of (t_user t) (pool s)) - 1 \<and>
    (length (tokens_of (t_user t) (pool s)) = 1 \<longrightarrow> (\<forall>hs'. fst (run (resolve_token E hs') s') \<noteq> Inr (t_user t)))"
proof -
  let ?d = "snd (delete_oldest_token (t_user t) (pool s))"
  let ?s' = "s\<lparr>pool := ?d, faults := []\<rparr>"
  have row: "List.find (\<lambda>x. t_hash x = hash_token E raw \<and> token_live (sql_now E s) x) (tokens (pool s)) = Some t"
    using token_hash.find_row_if [OF assms(2,3), of "token_live (sql_now E s)"] assms(5,6) by simp
  have auth: "run (resolve_token E hs) s = (Inr (t_user t), s\<lparr>faults := [False, False, True]\<rparr>)"
    using row assms(4) by (simp add: resolve_token_def run_pbind run_sql_next [OF assms(1)] select_token_def query_def run_pure)
  have delete: "run (sql (\<lambda>s. delete_oldest_token (t_user t))) (s\<lparr>faults := [False, True]\<rparr>) =
      (Inr (), s\<lparr>pool := ?d, faults := [True]\<rparr>)"
    by (subst run_sql_next) (simp_all add: delete_oldest_token_def)
  have issue: "run (issue_token E (config s) rnd (t_user t)) (s\<lparr>pool := ?d, faults := [True]\<rparr>) = (Inl (Fail (Db Engine)), ?s')"
    using assms(7) by (simp add: issue_token_def Let_def run_pbind run_expires_at run_sql_refused)
  have "run (token_refresh E rnd hs) s = (Inl (Fail (Db Engine)), ?s')"
    using assms(8) delete issue
    by (simp add: token_refresh_def run_pbind auth run_sql_next count_tokens_def query_def run_reads tokens_of_def)
  moreover have fewer: "length (tokens_of (t_user t) ?d) = length (tokens_of (t_user t) (pool s)) - 1"
    by (rule delete_oldest_own [OF assms(2,3) refl])
  moreover have "fst (run (resolve_token E hs') ?s') \<noteq> Inr (t_user t)" if "length (tokens_of (t_user t) (pool s)) = 1" for hs'
  proof
    assume "fst (run (resolve_token E hs') ?s') = Inr (t_user t)"
    then have run: "run (resolve_token E hs') ?s' = (Inr (t_user t), snd (run (resolve_token E hs') ?s'))" by (metis prod.collapse)
    have "faults ?s' = []" by simp
    from resolve_tokenD [OF this run] have "tokens_of (t_user t) ?d \<noteq> []" by (auto simp: tokens_of_def filter_empty_conv)
    then show False using fewer that by simp
  qed
  ultimately show ?thesis by (intro exI [of _ ?s']) simp
qed

section \<open>Witnesses\<close>

theorem error_is_clean_witness:
  "pool (snd (run (heartbeat sample_ext []) sample_home)) = sample_db"
proof -
  have "fst (run (heartbeat sample_ext []) sample_home) = Inl (Fail Unauthorized)"
    by (simp add: heartbeat_def run_pbind run_resolve_token extract_bearer_def)
  from error_is_clean [OF h_heartbeat _ this] show ?thesis by simp
qed

definition sample_single :: app_state where
  "sample_single = sample_home\<lparr>faults := [False, False, False, True],
     config := sample_config\<lparr>cfg_tokens := \<lparr>ttl_days = 0, max_per_user = 1\<rparr>\<rparr>\<rparr>"

theorem refresh_half_done_witness:
  "\<exists>s'. run (token_refresh sample_ext [] (bearer sample_token)) sample_single = (Inl (Fail (Db Engine)), s') \<and>
     (\<forall>hs'. fst (run (resolve_token sample_ext hs') s') \<noteq> Inr 1)"
proof -
  have live: "token_live (sql_now sample_ext sample_single) sample_token_row"
    using clock_texts_compare [OF sample_clock_texts, of 0 0]
    by (simp add: token_live_def sample_token_row_def sql_now_def day_of_def last_day_def sample_single_def)
  have "t_hash sample_token_row = hash_token sample_ext sample_token" "t_user sample_token_row = 1"
    "extract_bearer (bearer sample_token) = Inr sample_token"
    using extract_bearer_token [OF sample_hex_ok, of sample_rnd] by (simp_all add: sample_token_row_def sample_token_def)
  with refresh_half_done [of sample_single sample_token_row "bearer sample_token" sample_token sample_ext None "[]", OF _ _ _ _ _ live]
  show ?thesis
    by (simp add: sample_single_def sample_db_ok sample_db_simps sample_tokens_of expiry_of_def del: One_nat_def) fastforce
qed

end
