(* ===== verification/Requests.thy ===== *)
theory Requests
  imports Server
begin

text \<open>
  From an HTTP request to the handler that runs: the request structs and their serde readers (\<open>RegisterReq\<close>,
  \<open>UpdateReq\<close>, \<open>SearchQuery\<close> of \<open>src/discovery.rs\<close>, \<open>JoinReq\<close>, \<open>GroupWsQuery\<close> of \<open>src/group.rs\<close>, \<open>RelayWsQuery\<close> of
  \<open>src/relay.rs\<close>) and the extractors in the signatures of the handlers. What axum does before is in the record
  \<open>http_request\<close>: the peer, the headers, the path parameter (\<open>None\<close> when it does not decode), the pairs of the query, the
  body if it is JSON, and whether the headers ask for a WebSocket. How axum answers a rejection is not modelled.
  The random draws of a handler are the record \<open>draws\<close>.
\<close>

section \<open>Bodies and queries\<close>

text \<open>
  An \<open>Option\<close> field of a derived struct: \<open>null\<close> is \<open>None\<close>, and so is a member an object does not
  have; an array has every field.
\<close>

fun absent :: "json \<Rightarrow> bool" where
  "absent (JObj kvs) = True"
| "absent v = False"

definition optional :: "(json \<Rightarrow> 'a option) \<Rightarrow> json \<Rightarrow> string list \<Rightarrow> nat \<Rightarrow> 'a option option" where
  "optional d j names i =
     (case struct_field j names i of
        None \<Rightarrow> None
      | Some None \<Rightarrow> if absent j then Some None else None
      | Some (Some v) \<Rightarrow> if v = JNull then Some None else map_option Some (d v))"

definition de_register_req :: "json \<Rightarrow> register_req option" where
  "de_register_req j =
     (let f = [''username'', ''pubkey'', ''ip'', ''port'', ''email'', ''invite_code'', ''client_version''] in
      do { u \<leftarrow> required de_string j f 0;
           k \<leftarrow> required de_string j f 1;
           a \<leftarrow> required de_string j f 2;
           p \<leftarrow> required de_word j f 3;
           m \<leftarrow> optional de_string j f 4;
           i \<leftarrow> optional de_string j f 5;
           v \<leftarrow> optional de_string j f 6;
           Some \<lparr>rq_username = u, rq_pubkey = k, rq_ip = a, rq_port = p, rq_email = m,
                 rq_invite_code = i, rq_client_version = v\<rparr> })"

definition de_update_req :: "json \<Rightarrow> update_req option" where
  "de_update_req j =
     (let f = [''ip'', ''port''] in
      do { a \<leftarrow> required de_string j f 0;
           p \<leftarrow> required de_word j f 1;
           Some \<lparr>up_ip = a, up_port = p\<rparr> })"

definition de_join_req :: "json \<Rightarrow> join_req option" where
  "de_join_req j =
     (let f = [''username'', ''pubkey''] in
      do { u \<leftarrow> required de_string j f 0;
           k \<leftarrow> required de_string j f 1;
           Some \<lparr>jr_username = u, jr_pubkey = k\<rparr> })"

text \<open>A query struct with one \<open>Option<String>\<close> field, read from the pairs of the query string.\<close>

definition query_field :: "string \<Rightarrow> (string \<times> string) list \<Rightarrow> string option option" where
  "query_field k q =
     (case filter (\<lambda>kv. fst kv = k) q of [] \<Rightarrow> Some None | [kv] \<Rightarrow> Some (Some (snd kv)) | _ \<Rightarrow> None)"

definition de_search_query :: "(string \<times> string) list \<Rightarrow> string option option" where
  "de_search_query = query_field ''q''"

definition de_relay_ws_query :: "(string \<times> string) list \<Rightarrow> string option option" where
  "de_relay_ws_query = query_field ''token''"

definition de_group_ws_query :: "(string \<times> string) list \<Rightarrow> string option option" where
  "de_group_ws_query = query_field ''token''"

section \<open>From a request to its handler\<close>

record http_request =
  hr_peer :: ip_addr
  hr_headers :: headers
  hr_param :: "string option"
  hr_query :: "(string \<times> string) list"
  hr_body :: "json option"
  hr_upgrade :: bool

record draws =
  dr_token :: bytes
  dr_token_b :: bytes
  dr_uuid :: bytes
  dr_invite :: u32
  dr_group_key :: bytes
  dr_secret :: bytes
  dr_nonce :: bytes

datatype rejection = No_Upgrade | Bad_Path | Bad_Query | Bad_Body

text \<open>The extractors, and the arguments of a handler in the order of its signature.\<close>

definition from_body :: "(json \<Rightarrow> 'a option) \<Rightarrow> http_request \<Rightarrow> ('a \<Rightarrow> 'p) \<Rightarrow> rejection + 'p" where
  "from_body de r k = (case Option.bind (hr_body r) de of None \<Rightarrow> Inl Bad_Body | Some b \<Rightarrow> Inr (k b))"

definition from_path :: "http_request \<Rightarrow> (string \<Rightarrow> rejection + 'p) \<Rightarrow> rejection + 'p" where
  "from_path r k = (case hr_param r of None \<Rightarrow> Inl Bad_Path | Some x \<Rightarrow> k x)"

definition from_query :: "((string \<times> string) list \<Rightarrow> string option option) \<Rightarrow> http_request \<Rightarrow>
    (string option \<Rightarrow> 'p) \<Rightarrow> rejection + 'p" where
  "from_query de r k = (case de (hr_query r) of None \<Rightarrow> Inl Bad_Query | Some x \<Rightarrow> Inr (k x))"

definition from_upgrade :: "http_request \<Rightarrow> rejection + 'p \<Rightarrow> rejection + 'p" where
  "from_upgrade r p = (if hr_upgrade r then p else Inl No_Upgrade)"

fun discovery_request :: "'v ext \<Rightarrow> draws \<Rightarrow> http_request \<Rightarrow> endpoint \<Rightarrow> (rejection + response handler) option" where
  "discovery_request E d r Info = Some (Inr (info E))"
| "discovery_request E d r Register = Some (from_body de_register_req r (register E (dr_token d) (hr_peer r)))"
| "discovery_request E d r Lookup = Some (from_path r (\<lambda>name. Inr (lookup E (hr_peer r) name)))"
| "discovery_request E d r Search = Some (from_query de_search_query r (search E))"
| "discovery_request E d r Update = Some (from_body de_update_req r (update_presence E (hr_headers r)))"
| "discovery_request E d r Heartbeat = Some (Inr (heartbeat E (hr_headers r)))"
| "discovery_request E d r Unregister = Some (Inr (unregister E (hr_headers r)))"
| "discovery_request E d r Token_Refresh = Some (Inr (token_refresh E (dr_token d) (hr_headers r)))"
| "discovery_request E d r Invite_Create = Some (Inr (invite_create E (dr_invite d) (hr_headers r)))"
| "discovery_request E d r e = None"

fun relay_request :: "'v ext \<Rightarrow> draws \<Rightarrow> http_request \<Rightarrow> endpoint \<Rightarrow> (rejection + response handler) option" where
  "relay_request E d r Relay_Create =
     Some (Inr (relay_create E (dr_uuid d) (dr_token d) (dr_token_b d) (hr_headers r)))"
| "relay_request E d r Relay_Join = Some (from_path r (\<lambda>sid. Inr (relay_join E (hr_headers r) sid)))"
| "relay_request E d r Relay_Socket =
     Some (from_upgrade r (from_path r (\<lambda>sid. from_query de_relay_ws_query r (relay_ws E sid))))"
| "relay_request E d r e = None"

fun group_request :: "'v ext \<Rightarrow> draws \<Rightarrow> http_request \<Rightarrow> endpoint \<Rightarrow> (rejection + response handler) option" where
  "group_request E d r Group_Info = Some (Inr group_info)"
| "group_request E d r Group_Join =
     Some (from_body de_join_req r (group_join E (dr_group_key d) (dr_secret d) (dr_nonce d) (dr_token d)))"
| "group_request E d r Group_Leave = Some (Inr (group_leave E (hr_headers r)))"
| "group_request E d r Group_Members = Some (Inr (group_members E (hr_headers r)))"
| "group_request E d r Group_History = Some (Inr (group_history E (hr_headers r)))"
| "group_request E d r Group_Socket = Some (from_upgrade r (from_query de_group_ws_query r (group_ws E)))"
| "group_request E d r e = None"

text \<open>
  What the server makes of a request that axum matched to the route \<open>k\<close>: nothing when the mode has no
  such route, a rejection, or the handler to run.
\<close>

definition routed :: "'v ext \<Rightarrow> string \<Rightarrow> draws \<Rightarrow> http_request \<Rightarrow> string \<times> string \<Rightarrow> (rejection + response handler) option" where
  "routed E m d r k =
     Option.bind (map_of (build_router m) k) (\<lambda>e.
       case discovery_request E d r e of
         Some x \<Rightarrow> Some x
       | None \<Rightarrow> (case relay_request E d r e of Some x \<Rightarrow> Some x | None \<Rightarrow> group_request E d r e))"

section \<open>Every request can be written\<close>

definition en_option :: "string option \<Rightarrow> json" where
  "en_option x = (case x of None \<Rightarrow> JNull | Some s \<Rightarrow> JStr s)"

definition en_register_req :: "register_req \<Rightarrow> json" where
  "en_register_req b = JObj [(''username'', JStr (rq_username b)), (''pubkey'', JStr (rq_pubkey b)), (''ip'', JStr (rq_ip b)),
     (''port'', JInt (uint (rq_port b))), (''email'', en_option (rq_email b)), (''invite_code'', en_option (rq_invite_code b)),
     (''client_version'', en_option (rq_client_version b))]"

definition en_update_req :: "update_req \<Rightarrow> json" where
  "en_update_req b = JObj [(''ip'', JStr (up_ip b)), (''port'', JInt (uint (up_port b)))]"

definition en_join_req :: "join_req \<Rightarrow> json" where
  "en_join_req b = JObj [(''username'', JStr (jr_username b)), (''pubkey'', JStr (jr_pubkey b))]"

lemma optional_present: "struct_field j names i = Some (Some (en_option x)) \<Longrightarrow> optional de_string j names i = Some x"
  by (simp add: optional_def en_option_def split: option.split)

lemma de_en_register_req: "de_register_req (en_register_req b) = Some b"
  by (simp add: de_register_req_def en_register_req_def required_def optional_present field_of_def Let_def)

lemma de_en_update_req: "de_update_req (en_update_req b) = Some b"
  by (simp add: de_update_req_def en_update_req_def de_field_simps)

lemma de_en_join_req: "de_join_req (en_join_req b) = Some b"
  by (simp add: de_join_req_def en_join_req_def de_field_simps)

definition en_query :: "string \<Rightarrow> string option \<Rightarrow> (string \<times> string) list" where
  "en_query k x = (case x of None \<Rightarrow> [] | Some v \<Rightarrow> [(k, v)])"

lemma query_field_en: "query_field k (en_query k x) = Some x"
  by (simp add: query_field_def en_query_def split: option.split)

text \<open>An optional member may also be left out.\<close>

lemma optional_left_out: "field_of kvs (names ! i) = Some None \<Longrightarrow> optional d (JObj kvs) names i = Some None"
  by (simp add: optional_def)

lemmas extract_defs = from_body_def from_path_def from_query_def from_upgrade_def de_search_query_def
  de_relay_ws_query_def de_group_ws_query_def

lemma routed_handles: "routed E m d r k = Some (Inr p) \<Longrightarrow> \<exists>e. map_of (build_router m) k = Some e \<and> handles E e p"
proof -
  assume "routed E m d r k = Some (Inr p)"
  then obtain e where e: "map_of (build_router m) k = Some e"
    and "discovery_request E d r e = Some (Inr p) \<or> relay_request E d r e = Some (Inr p) \<or> group_request E d r e = Some (Inr p)"
    by (auto simp: routed_def split: bind_splits option.splits)
  then have "handles E e p"
    by (cases e) (auto simp: extract_defs simp del: handles_simps intro: handles.intros split: option.splits if_splits bind_splits)
  with e show ?thesis by blast
qed

text \<open>The arguments of a handler, as a request and its draws.\<close>

abbreviation sent :: "ip_addr \<Rightarrow> headers \<Rightarrow> string \<Rightarrow> (string \<times> string) list \<Rightarrow> json \<Rightarrow> http_request" where
  "sent peer hs x q b \<equiv> \<lparr>hr_peer = peer, hr_headers = hs, hr_param = Some x, hr_query = q, hr_body = Some b, hr_upgrade = True\<rparr>"

abbreviation drawn :: "bytes \<Rightarrow> bytes \<Rightarrow> bytes \<Rightarrow> u32 \<Rightarrow> bytes \<Rightarrow> bytes \<Rightarrow> bytes \<Rightarrow> draws" where
  "drawn t tb u i g s n \<equiv> \<lparr>dr_token = t, dr_token_b = tb, dr_uuid = u, dr_invite = i, dr_group_key = g, dr_secret = s, dr_nonce = n\<rparr>"

text \<open>Each handler, with any arguments, is what a request with these arguments runs.\<close>

lemma sent_runs:
  "map_of (build_router m) k = Some Info \<Longrightarrow>
     routed E m (drawn [] [] [] 0 [] [] []) (sent (V4 0) [] [] [] JNull) k = Some (Inr (info E))"
  "map_of (build_router m) k = Some Register \<Longrightarrow>
     routed E m (drawn rnd [] [] 0 [] [] []) (sent peer [] [] [] (en_register_req rq)) k = Some (Inr (register E rnd peer rq))"
  "map_of (build_router m) k = Some Lookup \<Longrightarrow>
     routed E m (drawn [] [] [] 0 [] [] []) (sent peer [] name [] JNull) k = Some (Inr (lookup E peer name))"
  "map_of (build_router m) k = Some Search \<Longrightarrow>
     routed E m (drawn [] [] [] 0 [] [] []) (sent (V4 0) [] [] (en_query ''q'' q) JNull) k = Some (Inr (search E q))"
  "map_of (build_router m) k = Some Update \<Longrightarrow>
     routed E m (drawn [] [] [] 0 [] [] []) (sent (V4 0) hs [] [] (en_update_req up)) k = Some (Inr (update_presence E hs up))"
  "map_of (build_router m) k = Some Heartbeat \<Longrightarrow>
     routed E m (drawn [] [] [] 0 [] [] []) (sent (V4 0) hs [] [] JNull) k = Some (Inr (heartbeat E hs))"
  "map_of (build_router m) k = Some Unregister \<Longrightarrow>
     routed E m (drawn [] [] [] 0 [] [] []) (sent (V4 0) hs [] [] JNull) k = Some (Inr (unregister E hs))"
  "map_of (build_router m) k = Some Token_Refresh \<Longrightarrow>
     routed E m (drawn rnd [] [] 0 [] [] []) (sent (V4 0) hs [] [] JNull) k = Some (Inr (token_refresh E rnd hs))"
  "map_of (build_router m) k = Some Invite_Create \<Longrightarrow>
     routed E m (drawn [] [] [] i [] [] []) (sent (V4 0) hs [] [] JNull) k = Some (Inr (invite_create E i hs))"
  "map_of (build_router m) k = Some Relay_Create \<Longrightarrow>
     routed E m (drawn ta tb uuid 0 [] [] []) (sent (V4 0) hs [] [] JNull) k = Some (Inr (relay_create E uuid ta tb hs))"
  "map_of (build_router m) k = Some Relay_Join \<Longrightarrow>
     routed E m (drawn [] [] [] 0 [] [] []) (sent (V4 0) hs sid [] JNull) k = Some (Inr (relay_join E hs sid))"
  "map_of (build_router m) k = Some Relay_Socket \<Longrightarrow>
     routed E m (drawn [] [] [] 0 [] [] []) (sent (V4 0) [] sid (en_query ''token'' token) JNull) k = Some (Inr (relay_ws E sid token))"
  "map_of (build_router m) k = Some Group_Info \<Longrightarrow>
     routed E m (drawn [] [] [] 0 [] [] []) (sent (V4 0) [] [] [] JNull) k = Some (Inr (group_info))"
  "map_of (build_router m) k = Some Group_Join \<Longrightarrow>
     routed E m (drawn rnd [] [] 0 key secret nonce) (sent (V4 0) [] [] [] (en_join_req join_rq)) k = Some (Inr (group_join E key secret nonce rnd join_rq))"
  "map_of (build_router m) k = Some Group_Leave \<Longrightarrow>
     routed E m (drawn [] [] [] 0 [] [] []) (sent (V4 0) hs [] [] JNull) k = Some (Inr (group_leave E hs))"
  "map_of (build_router m) k = Some Group_Members \<Longrightarrow>
     routed E m (drawn [] [] [] 0 [] [] []) (sent (V4 0) hs [] [] JNull) k = Some (Inr (group_members E hs))"
  "map_of (build_router m) k = Some Group_History \<Longrightarrow>
     routed E m (drawn [] [] [] 0 [] [] []) (sent (V4 0) hs [] [] JNull) k = Some (Inr (group_history E hs))"
  "map_of (build_router m) k = Some Group_Socket \<Longrightarrow>
     routed E m (drawn [] [] [] 0 [] [] []) (sent (V4 0) [] [] (en_query ''token'' token) JNull) k = Some (Inr (group_ws E token))"
  by (simp_all add: routed_def extract_defs de_en_register_req de_en_update_req de_en_join_req query_field_en)

lemma handles_routed:
  assumes "handles E e p" "map_of (build_router m) k = Some e"
  shows "\<exists>d r. routed E m d r k = Some (Inr p)"
  using assms by cases (simp_all, (rule exI, rule exI, erule sent_runs)+)


end
