(* ===== verification/Startup.thy ===== *)
theory Startup
  imports Server
begin

text \<open>
  The start of the process (\<open>main\<close> of \<open>src/main.rs\<close>) up to the accept loop: arguments, configuration, database
  (\<open>create_pool\<close> of \<open>src/db.rs\<close>), migration, initial state, background tasks, routes and listener. The file system,
  the sockets and sqlx are the record \<open>platform\<close>. Set-up of the log and parsing of the command line are libraries'.
\<close>

section \<open>What starting relies on\<close>

datatype journal_mode = Delete | Truncate | Persist | Memory | Wal | Off

text \<open>
  sqlx and the system, as parameters: \<open>'o\<close> are the connection options of sqlx, opening a pool of at most
  \<open>n\<close> connections gives the tables and rows of the file, \<open>listen\<close> binds an address.
\<close>

record ('o, 'l) platform =
  read_to_string :: "string \<Rightarrow> string + string"
  json_error :: "string \<Rightarrow> string"
  options_from_str :: "string \<Rightarrow> string + 'o"
  create_if_missing :: "bool \<Rightarrow> 'o \<Rightarrow> 'o"
  with_journal_mode :: "journal_mode \<Rightarrow> 'o \<Rightarrow> 'o"
  connect_with :: "nat \<Rightarrow> 'o \<Rightarrow> string + schema \<times> db"
  listen :: "8 word list \<times> u16 \<Rightarrow> string + 'l"

section \<open>Starting\<close>

record args =
  arg_config :: string
  arg_mode :: string

definition default_args :: args where
  "default_args = \<lparr>arg_config = ''config.json'', arg_mode = ''discovery''\<rparr>"

definition create_pool :: "('o, 'l) platform \<Rightarrow> storage_config \<Rightarrow> string + schema \<times> db" where
  "create_pool X cfg =
     (case options_from_str X (''sqlite:'' @ sto_path cfg) of
        Inl e \<Rightarrow> Inl e
      | Inr opts \<Rightarrow> connect_with X 8 (with_journal_mode X Wal (create_if_missing X True opts)))"

text \<open>An error of \<open>main\<close>: the context that was added to it, and the text of its cause.\<close>

record startup_error =
  err_context :: string
  err_cause :: string

definition with_context :: "string \<Rightarrow> string + 'a \<Rightarrow> startup_error + 'a" where
  "with_context c r = map_sum (\<lambda>e. \<lparr>err_context = c, err_cause = e\<rparr>) id r"

fun and_then :: "'e + 'a \<Rightarrow> ('a \<Rightarrow> 'e + 'b) \<Rightarrow> 'e + 'b" where
  "and_then (Inl e) k = Inl e"
| "and_then (Inr a) k = k a"

datatype startup_task = Refresh_Loop | Cleanup_Loop

record 'l started =
  st_state :: app_state
  st_tasks :: "startup_task list"
  st_routes :: routes
  st_schema :: schema
  st_listener :: 'l

definition show_v4_addr :: "8 word list \<times> u16 \<Rightarrow> string" where
  "show_v4_addr a = (case fst a of
     [] \<Rightarrow> [] | b # bs \<Rightarrow> decimal (unat b) @ concat (map (\<lambda>b. ''.'' @ decimal (unat b)) bs)) @ '':'' @ decimal (unat (snd a))"

definition parse_config :: "'v ext \<Rightarrow> ('o, 'l) platform \<Rightarrow> string \<Rightarrow> string + config" where
  "parse_config E X content =
     (case Option.bind (json_parse E content) de_config of None \<Rightarrow> Inl (json_error X content) | Some c \<Rightarrow> Inr c)"

text \<open>\<open>main\<close> up to the accept loop of \<open>axum::serve\<close>.\<close>

definition main :: "'v ext \<Rightarrow> ('o, 'l) platform \<Rightarrow> args \<Rightarrow> startup_error + 'l started" where
  "main E X a =
     and_then (with_context (''cannot read config file '' @ [CHR 0x27] @ arg_config a @ [CHR 0x27]) (read_to_string X (arg_config a))) (\<lambda>content.
     and_then (with_context ''invalid config.json'' (parse_config E X content)) (\<lambda>c.
     and_then (with_context ''failed to open database'' (create_pool X (cfg_storage c))) (\<lambda>(sc, d).
     and_then (with_context ''migration failed'' (map_sum (sqlx_text E) id (migrate (arg_mode a) sc))) (\<lambda>sc'.
     let s = new_state d c (arg_mode a);
         tasks = (if min_client_version (cfg_compatibility c) = ''latest'' then [Refresh_Loop] else []) @ [Cleanup_Loop];
         app = build_router (arg_mode a);
         addr = ([0, 0, 0, 0], srv_port (cfg_server c)) in
     and_then (with_context (''cannot bind to '' @ show_v4_addr addr) (listen X addr)) (\<lambda>l.
     Inr \<lparr>st_state = s, st_tasks = tasks, st_routes = app, st_schema = sc', st_listener = l\<rparr>)))))"

lemma migrate_again: "\<exists>sc'. migrate m sc = Inr sc' \<and> migrate m sc' = Inr sc' \<and> (\<forall>d \<in> fst ` set (migrate_steps m). settled d sc')"
proof -
  obtain sc' where "migrate_run (migrate_steps m) sc = Inr sc'" "\<forall>d \<in> fst ` set (migrate_steps m). settled d sc'"
    using migrate_run_settles [OF migrate_steps_ordered] by blast
  with migrate_run_settled [OF migrate_steps_ordered] show ?thesis unfolding migrate_def by blast
qed

lemma decimal_0: "decimal 0 = ''0''"
  by code_simp

text \<open>The first two steps together: the file holds the configuration.\<close>

definition config_file :: "'v ext \<Rightarrow> ('o, 'l) platform \<Rightarrow> args \<Rightarrow> config \<Rightarrow> bool" where
  "config_file E X a c \<longleftrightarrow> (\<exists>content. read_to_string X (arg_config a) = Inr content \<and> parse_config E X content = Inr c)"

lemma main_run:
  assumes "config_file E X a c" "create_pool X (cfg_storage c) = Inr (sc, d)"
    and "listen X ([0, 0, 0, 0], srv_port (cfg_server c)) = Inr l" "migrate (arg_mode a) sc = Inr sc'"
  shows "main E X a = Inr \<lparr>st_state = new_state d c (arg_mode a),
    st_tasks = (if min_client_version (cfg_compatibility c) = ''latest'' then [Refresh_Loop] else []) @ [Cleanup_Loop],
    st_routes = build_router (arg_mode a), st_schema = sc', st_listener = l\<rparr>"
  using assms by (auto simp: config_file_def main_def with_context_def Let_def)



definition sample_platform :: "(string, unit) platform" where
  "sample_platform = \<lparr>read_to_string = (\<lambda>f. if f = ''config.json'' then Inr ''{}'' else Inl ''No such file''),
     json_error = (\<lambda>s. []), options_from_str = Inr, create_if_missing = (\<lambda>b o'. o'), with_journal_mode = (\<lambda>j o'. o'),
     connect_with = (\<lambda>n o'. Inr ([], empty_db)), listen = (\<lambda>a. Inr ())\<rparr>"


end
